theory Spec2Isabelle
  imports Complex_Main
begin

text \<open>
  FlowProp plays a scripted chat on a prop phone: the lines of the other party appear on
  timers, the actor's lines are typed on a keyboard whose keys reveal the next character of
  the script whichever key is pressed. The repository holds several versions of the
  application. This theory embeds the keystroke handlers and the live sessions of
  src/src/App.jsx (\<open>useForcedTyping\<close> in its two variants, \<open>LiveChat\<close>, \<open>LiveChatMode\<close>, the
  key handler of \<open>LiveModeView\<close> and the live session of \<open>FlowProp\<close> around it), of
  src/unnamed/part_000 (the on-screen keyboard) and of src/unnamed/part_001
  (\<open>ForcedTypingInput\<close>, \<open>LiveScreen\<close>), and proves or refutes the claims C1 to C10 about
  them. A React component is a record of its state cells; an event handler, a timer
  callback and an effect are functions from state to state; a session is a run of events
  (timer firings, time passing, keys, buttons, new props, unmounting) from the mounted
  state. Times are in milliseconds, as real numbers.
\<close>

section \<open>JavaScript strings and numbers used by the handlers\<close>

text \<open>
  A JavaScript string is modelled as a \<open>string\<close>: a list of code units, one \<open>char\<close> per
  UTF-16 code unit (the model covers code units below 256). \<open>length\<close> is the source's
  \<open>.length\<close>. Indices and counters are JavaScript numbers; they are modelled as \<open>int\<close>, so
  that a decrement below zero is a value of the model and not excluded by the type.
\<close>

definition charAt :: "string \<Rightarrow> int \<Rightarrow> string" where
  \<comment> \<open>\<open>prev + s[i]\<close>: the code unit at \<open>i\<close>, or the text \<open>undefined\<close> out of range.\<close>
  "charAt s i = (if 0 \<le> i \<and> i < int (length s) then [s ! nat i] else ''undefined'')"

definition substring0 :: "string \<Rightarrow> int \<Rightarrow> string" where
  \<comment> \<open>\<open>s.substring(0, n)\<close>: a negative \<open>n\<close> counts as 0, an \<open>n\<close> past the end as the length.\<close>
  "substring0 s n = take (nat n) s"

definition slice_drop_last :: "string \<Rightarrow> string" where
  \<comment> \<open>\<open>s.slice(0, -1)\<close>\<close>
  "slice_drop_last s = butlast s"

definition js_or :: "real \<Rightarrow> real \<Rightarrow> real" where
  \<comment> \<open>\<open>x || y\<close> on numbers: 0 is falsy. (The numeric fields below are never NaN.)\<close>
  "js_or x y = (if x = 0 then y else x)"

section \<open>Forced typing: the keystroke handlers\<close>

subsection \<open>\<open>useForcedTyping\<close> (src/src/App.jsx, lines 116-144)\<close>

record forced_typing =
  displayText :: string
  scriptIndex :: int

definition useForcedTyping_init :: forced_typing where
  \<comment> \<open>\<open>useState('')\<close>, \<open>useState(0)\<close>\<close>
  "useForcedTyping_init = \<lparr>displayText = '''', scriptIndex = 0\<rparr>"

text \<open>
  \<open>handleKeyDown\<close> returns the next state and the text passed to \<open>onComplete\<close>, if any.
  The argument \<open>key\<close> is \<open>e.key\<close>.
\<close>

definition handleKeyDown :: "string \<Rightarrow> string \<Rightarrow> forced_typing \<Rightarrow> forced_typing \<times> string option" where
  "handleKeyDown scriptText key s =
     (if key = ''Backspace'' then
        (if scriptIndex s > 0
         then (s\<lparr>displayText := slice_drop_last (displayText s), scriptIndex := scriptIndex s - 1\<rparr>, None)
         else (s, None))
      else if key = ''Enter'' then
        (if scriptIndex s \<ge> int (length scriptText) then (s, Some (displayText s)) else (s, None))
      else if length key = 1 then
        (if scriptIndex s < int (length scriptText)
         then (s\<lparr>displayText := displayText s @ charAt scriptText (scriptIndex s),
                 scriptIndex := scriptIndex s + 1\<rparr>, None)
         else (s, None))
      else (s, None))"

definition isComplete :: "string \<Rightarrow> forced_typing \<Rightarrow> bool" where
  "isComplete scriptText s = (scriptIndex s \<ge> int (length scriptText))"

subsection \<open>\<open>useForcedTyping\<close>, the variant with a key pattern (src/src/App.jsx, lines 745-784)\<close>

definition is_space :: "char \<Rightarrow> bool" where
  \<comment> \<open>\<open>\s\<close>, on code units below 256: tab, line feed, vertical tab, form feed, carriage
      return, space, no-break space\<close>
  "is_space c = (of_char c \<in> {9, 10, 11, 12, 13, 32, 160 :: nat})"

definition key_class :: "char \<Rightarrow> bool" where
  \<comment> \<open>the class \<open>[a-zA-Z0-9\s.,!?;:'"()-]\<close>\<close>
  "key_class c =
     (let n = (of_char c :: nat) in
        (97 \<le> n \<and> n \<le> 122) \<or> (65 \<le> n \<and> n \<le> 90) \<or> (48 \<le> n \<and> n \<le> 57) \<or> is_space c
        \<or> c \<in> set ''.,!?;:()-'' \<or> n = 39 \<or> n = 34)"

definition key_matches :: "string \<Rightarrow> bool" where
  \<comment> \<open>\<open>e.key.match(/^[...]$/)\<close>: exactly one code unit, of the class\<close>
  "key_matches key = (case key of [c] \<Rightarrow> key_class c | _ \<Rightarrow> False)"

text \<open>
  The three \<open>if\<close> statements run one after the other; each test reads the values of the
  render (\<open>s\<close>), each update is a functional update of the state so far.
\<close>

definition handleKeyDown_pattern :: "string \<Rightarrow> string \<Rightarrow> forced_typing \<Rightarrow> forced_typing \<times> string option" where
  "handleKeyDown_pattern scriptText key s =
     (let s1 = (if key_matches key \<and> scriptIndex s < int (length scriptText)
                then s\<lparr>displayText := displayText s @ charAt scriptText (scriptIndex s),
                        scriptIndex := scriptIndex s + 1\<rparr>
                else s);
          s2 = (if key = ''Backspace'' \<and> length (displayText s) > 0
                then s1\<lparr>displayText := slice_drop_last (displayText s1),
                         scriptIndex := max 0 (scriptIndex s1 - 1)\<rparr>
                else s1)
      in if key = ''Enter'' \<and> scriptIndex s \<ge> int (length scriptText)
         then (s2\<lparr>displayText := '''', scriptIndex := 0\<rparr>, Some (displayText s))
         else (s2, None))"

definition reset :: "forced_typing \<Rightarrow> forced_typing" where
  "reset s = s\<lparr>displayText := '''', scriptIndex := 0\<rparr>"

subsection \<open>\<open>ForcedTypingInput\<close> (src/unnamed/part_001, lines 77-124)\<close>

record forced_input =
  inputValue :: string
  inputIndex :: int

definition ForcedTypingInput_init :: forced_input where
  "ForcedTypingInput_init = \<lparr>inputValue = '''', inputIndex = 0\<rparr>"

definition ForcedTypingInput_handleKeyDown ::
  "string \<Rightarrow> string \<Rightarrow> forced_input \<Rightarrow> forced_input \<times> string option" where
  "ForcedTypingInput_handleKeyDown textToType key s =
     (if key = ''Backspace'' then
        (if inputIndex s > 0
         then (s\<lparr>inputIndex := inputIndex s - 1,
                 inputValue := substring0 textToType (inputIndex s - 1)\<rparr>, None)
         else (s, None))
      else if key = ''Enter'' then
        (if inputIndex s = int (length textToType)
         then (s\<lparr>inputValue := '''', inputIndex := 0\<rparr>, Some textToType)
         else (s, None))
      else if length key = 1 \<and> inputIndex s < int (length textToType) then
        (s\<lparr>inputIndex := inputIndex s + 1,
           inputValue := substring0 textToType (inputIndex s + 1)\<rparr>, None)
      else (s, None))"

subsection \<open>The on-screen keyboard (src/unnamed/part_000)\<close>

definition FORCED_TEXT :: string where
  "FORCED_TEXT = ''L'' @ [CHR 0xD6] @ ''SENORDET '' @ [CHR 0xC4] @ ''R MIDNATTSSOL''"

record keyboard =
  kbDisplayText :: string
  currentIndex :: int
  isFinished :: bool
  popup :: "(string \<times> real \<times> real) option"

definition keyboard_init :: keyboard where
  "keyboard_init = \<lparr>kbDisplayText = '''', currentIndex = 0, isFinished = False, popup = None\<rparr>"

text \<open>
  What a key's \<open>onClick\<close> passes to its handler. The component \<open>Key\<close> calls
  \<open>onClick(value)\<close>: the handler receives the key's label, a string (\<open>KeyValue\<close>), not the
  click event. \<open>DomEvent left width top\<close> stands for an event whose \<open>currentTarget\<close> has
  that bounding rectangle. The two timers of the component (the one that hides the popup
  400 ms later and the one that clears the text 3 s after the message is finished) are
  not part of the model.
\<close>

datatype click_arg = KeyValue string | DomEvent real real real

datatype js_error = TypeError

definition showKeyPopup :: "click_arg \<Rightarrow> keyboard \<Rightarrow> js_error + keyboard" where
  \<comment> \<open>\<open>e.currentTarget\<close> of a string is \<open>undefined\<close>, and calling
      \<open>getBoundingClientRect\<close> on it throws.\<close>
  "showKeyPopup e st =
     (if currentIndex st \<ge> int (length FORCED_TEXT) then Inr st
      else case e of
             KeyValue v \<Rightarrow> Inl TypeError
           | DomEvent rleft rwidth rtop \<Rightarrow>
               Inr (st\<lparr>popup := Some (charAt FORCED_TEXT (currentIndex st), rleft + rwidth / 2, rtop)\<rparr>))"

definition handleKeyPress :: "click_arg \<Rightarrow> keyboard \<Rightarrow> js_error + keyboard" where
  "handleKeyPress e st =
     (if currentIndex st < int (length FORCED_TEXT) then
        (case showKeyPopup e st of
           Inl err \<Rightarrow> Inl err
         | Inr st1 \<Rightarrow>
             Inr (st1\<lparr>kbDisplayText := kbDisplayText st1 @ charAt FORCED_TEXT (currentIndex st),
                      currentIndex := currentIndex st1 + 1\<rparr>))
      else Inr st)"

definition handleBackspace :: "keyboard \<Rightarrow> keyboard" where
  "handleBackspace st =
     (if currentIndex st > 0
      then st\<lparr>kbDisplayText := slice_drop_last (kbDisplayText st), currentIndex := currentIndex st - 1\<rparr>
      else st)"

definition handleEnter :: "keyboard \<Rightarrow> keyboard" where
  "handleEnter st = (if currentIndex st = int (length FORCED_TEXT) then st\<lparr>isFinished := True\<rparr> else st)"

text \<open>Feeding a list of keys to a handler, collecting the texts passed to \<open>onComplete\<close>.\<close>

fun feed :: "(string \<Rightarrow> 's \<Rightarrow> 's \<times> string option) \<Rightarrow> string list \<Rightarrow> 's \<Rightarrow> 's \<times> string list" where
  "feed h [] s = (s, [])"
| "feed h (k # ks) s =
     (case h k s of (s', out) \<Rightarrow>
        (case feed h ks s' of (s'', outs) \<Rightarrow>
           (s'', (case out of None \<Rightarrow> [] | Some t \<Rightarrow> [t]) @ outs)))"

text \<open>
  The hook of the pattern variant lives in \<open>LiveChatMode\<close>, whose current line (and so
  \<open>scriptText\<close>) changes while the hook's state stays: a run is a list of pairs of the
  \<open>scriptText\<close> of the render and the key.
\<close>

fun feed_pattern :: "(string \<times> string) list \<Rightarrow> forced_typing \<Rightarrow> forced_typing" where
  "feed_pattern [] s = s"
| "feed_pattern ((t, k) # ks) s = feed_pattern ks (fst (handleKeyDown_pattern t k s))"

section \<open>Timers of the host\<close>

text \<open>
  \<open>setTimeout\<close> and \<open>clearTimeout\<close> over an explicit table of pending timers. A callback is
  a value of a datatype (one constructor per closure of the source, carrying what the
  closure captured). A negative delay counts as 0. The timer that fires next is the one
  with the least due time, the one registered first among equals.
\<close>

record 'cb timer =
  timer_id :: nat
  due :: real
  callback :: 'cb

record 'cb host =
  clock :: real
  next_timer :: nat
  pending :: "'cb timer list"

definition host_init :: "'cb host" where
  "host_init = \<lparr>clock = 0, next_timer = 1, pending = []\<rparr>"

definition setTimeout :: "'cb \<Rightarrow> real \<Rightarrow> 'cb host \<Rightarrow> nat \<times> 'cb host" where
  "setTimeout cb d h =
     (next_timer h,
      h\<lparr>next_timer := next_timer h + 1,
        pending := pending h @ [\<lparr>timer_id = next_timer h, due = clock h + max 0 d, callback = cb\<rparr>]\<rparr>)"

definition clearTimeout :: "nat \<Rightarrow> 'cb host \<Rightarrow> 'cb host" where
  "clearTimeout i h = h\<lparr>pending := filter (\<lambda>t. timer_id t \<noteq> i) (pending h)\<rparr>"

fun earliest :: "'cb timer list \<Rightarrow> 'cb timer option" where
  "earliest [] = None"
| "earliest (t # ts) =
     (case earliest ts of
        None \<Rightarrow> Some t
      | Some u \<Rightarrow> if due u < due t then Some u else Some t)"

definition take_timer :: "'cb timer \<Rightarrow> 'cb host \<Rightarrow> 'cb host" where
  \<comment> \<open>the timer fires: the clock is at its due time and it is no longer pending\<close>
  "take_timer t h =
     h\<lparr>clock := max (clock h) (due t), pending := filter (\<lambda>u. timer_id u \<noteq> timer_id t) (pending h)\<rparr>"

definition idle :: "real \<Rightarrow> 'cb host \<Rightarrow> 'cb host" where
  \<comment> \<open>time passes, at most until the next timer is due\<close>
  "idle d h =
     h\<lparr>clock := (case earliest (pending h) of
                    None \<Rightarrow> clock h + max 0 d
                  | Some t \<Rightarrow> min (clock h + max 0 d) (max (clock h) (due t)))\<rparr>"

section \<open>\<open>LiveScreen\<close> (src/unnamed/part_001, lines 495-621)\<close>

record message =
  msg_id :: string
  sender :: string
  msg_text :: string
  delay :: real

text \<open>
  Of \<open>settings\<close> the fields that \<open>LiveScreen\<close> reads for the playback; \<open>layoutStyle\<close> and
  \<open>targetContactId\<close> only choose what the header shows.
\<close>

record settings =
  timingMode :: string
  initialDelay :: real
  writingMode :: string

datatype live_cb = TypingTimeout | MessageTimeout message

text \<open>
  The state of the component: its \<open>useState\<close> cells, the list \<open>timeouts.current\<close>, the props
  of the current render, the state of the \<open>ForcedTypingInput\<close> while one is rendered, the
  host's timers and the number of calls of \<open>Math.random\<close> so far (the draws are a parameter
  \<open>rnd\<close>: call number \<open>k\<close> returns \<open>rnd k\<close>). A transcript entry is the message with its
  timestamp.
\<close>

record live_screen =
  messages :: "(message \<times> real) list"
  isTyping :: bool
  currentScriptIndex :: int
  timeouts :: "nat list"
  conversation :: "message list"
  lsettings :: settings
  typingInput :: "forced_input option"
  mounted :: bool
  browser :: "live_cb host"
  draws :: nat

fun indexOf :: "'a list \<Rightarrow> 'a \<Rightarrow> int" where
  \<comment> \<open>\<open>xs.indexOf(x)\<close>; the source compares object references, the model compares values
      (the same on a list of pairwise different messages)\<close>
  "indexOf [] x = - 1"
| "indexOf (y # ys) x = (if y = x then 0 else (let r = indexOf ys x in if r < 0 then - 1 else r + 1))"

definition nextActorMessage :: "message list \<Rightarrow> int \<Rightarrow> message option" where
  \<comment> \<open>\<open>conversation.find((msg, index) => msg.sender === 'me' && index >= currentScriptIndex)\<close>\<close>
  "nextActorMessage conv i =
     map_option snd (find (\<lambda>(index, msg). sender msg = ''me'' \<and> int index \<ge> i) (enumerate 0 conv))"

definition forEach_body :: "(nat \<Rightarrow> real) \<Rightarrow> real \<times> live_screen \<Rightarrow> message \<Rightarrow> real \<times> live_screen" where
  \<comment> \<open>the body of \<open>fullScript.forEach\<close>; the first component is \<open>cumulativeDelay\<close>\<close>
  "forEach_body rnd acc msg =
     (case acc of (cumulativeDelay, s) \<Rightarrow>
        let isContactMessage = (sender msg \<noteq> ''me'');
            natural = (timingMode (lsettings s) = ''natural'');
            messageDelay = (if natural then real (length (msg_text msg)) * 50 + rnd (draws s) * 500
                            else delay msg * 1000);
            s0 = (if natural then s\<lparr>draws := draws s + 1\<rparr> else s);
            (c1, s1) =
              (if isContactMessage then
                 (case setTimeout TypingTimeout cumulativeDelay (browser s0) of
                    (typingTimeout, h) \<Rightarrow>
                      (cumulativeDelay + (1000 + rnd (draws s0) * 1000),
                       s0\<lparr>browser := h, timeouts := timeouts s0 @ [typingTimeout], draws := draws s0 + 1\<rparr>))
               else (cumulativeDelay, s0))
        in (case setTimeout (MessageTimeout msg) c1 (browser s1) of
              (messageTimeout, h) \<Rightarrow>
                (c1 + messageDelay, s1\<lparr>browser := h, timeouts := timeouts s1 @ [messageTimeout]\<rparr>)))"

definition clear_timeouts :: "live_screen \<Rightarrow> live_screen" where
  \<comment> \<open>\<open>timeouts.current.forEach(clearTimeout)\<close>\<close>
  "clear_timeouts s = s\<lparr>browser := fold clearTimeout (timeouts s) (browser s)\<rparr>"

definition LiveScreen_effect :: "(nat \<Rightarrow> real) \<Rightarrow> live_screen \<Rightarrow> live_screen" where
  \<comment> \<open>the body of the \<open>useEffect\<close> with dependencies \<open>[conversation, settings]\<close>\<close>
  "LiveScreen_effect rnd s =
     (let s1 = (clear_timeouts s)\<lparr>timeouts := [], messages := [], isTyping := False, currentScriptIndex := 0\<rparr>
      in snd (foldl (forEach_body rnd) (initialDelay (lsettings s1) * 1000, s1) (conversation s1)))"

definition render_input :: "live_screen \<Rightarrow> live_screen" where
  \<comment> \<open>the footer: a \<open>ForcedTypingInput\<close> is rendered in writing mode \<open>prop\<close> while an actor
      message remains; React keeps the state of a component that stays rendered at the
      same place and drops it when the component is no longer rendered\<close>
  "render_input s =
     (if mounted s \<and> writingMode (lsettings s) = ''prop''
         \<and> nextActorMessage (conversation s) (currentScriptIndex s) \<noteq> None
      then (case typingInput s of None \<Rightarrow> s\<lparr>typingInput := Some ForcedTypingInput_init\<rparr> | Some i \<Rightarrow> s)
      else s\<lparr>typingInput := None\<rparr>)"

definition handleActorSend :: "string \<Rightarrow> live_screen \<Rightarrow> live_screen" where
  "handleActorSend actorMessage s =
     (case nextActorMessage (conversation s) (currentScriptIndex s) of
        None \<Rightarrow> s
      | Some nextMessage \<Rightarrow>
          if actorMessage = msg_text nextMessage
          then s\<lparr>messages := messages s @ [(nextMessage, clock (browser s))],
                 currentScriptIndex := indexOf (conversation s) nextMessage + 1\<rparr>
          else s)"

definition LiveScreen_mount :: "(nat \<Rightarrow> real) \<Rightarrow> message list \<Rightarrow> settings \<Rightarrow> live_screen" where
  \<comment> \<open>the first render and the first run of the effect\<close>
  "LiveScreen_mount rnd conv st =
     render_input (LiveScreen_effect rnd
       \<lparr>messages = [], isTyping = False, currentScriptIndex = 0, timeouts = [],
        conversation = conv, lsettings = st, typingInput = None, mounted = True,
        browser = host_init, draws = 0\<rparr>)"

datatype live_event =
    Tick  \<comment> \<open>time passes until the next pending timer fires\<close>
  | Idle real  \<comment> \<open>time passes and no timer fires\<close>
  | KeyDown string  \<comment> \<open>a key is pressed in the input\<close>
  | Rerender "message list" settings  \<comment> \<open>the parent passes a new conversation or new settings\<close>
  | Unmount  \<comment> \<open>the parent leaves the live view (\<open>onExit\<close>)\<close>

definition run_callback :: "live_cb \<Rightarrow> live_screen \<Rightarrow> live_screen" where
  "run_callback cb s =
     (case cb of
        TypingTimeout \<Rightarrow> s\<lparr>isTyping := True\<rparr>
      | MessageTimeout msg \<Rightarrow> s\<lparr>isTyping := False, messages := messages s @ [(msg, clock (browser s))]\<rparr>)"

definition LiveScreen_tick :: "live_screen \<Rightarrow> live_screen" where
  \<comment> \<open>a state update of a component that is no longer mounted is dropped\<close>
  "LiveScreen_tick s =
     (case earliest (pending (browser s)) of
        None \<Rightarrow> s
      | Some t \<Rightarrow>
          let s1 = s\<lparr>browser := take_timer t (browser s)\<rparr>
          in if mounted s1 then run_callback (callback t) s1 else s1)"

definition LiveScreen_keyDown :: "string \<Rightarrow> live_screen \<Rightarrow> live_screen" where
  "LiveScreen_keyDown key s =
     (case (typingInput s, nextActorMessage (conversation s) (currentScriptIndex s)) of
        (Some i, Some m) \<Rightarrow>
          (case ForcedTypingInput_handleKeyDown (msg_text m) key i of
             (i', out) \<Rightarrow>
               let s1 = s\<lparr>typingInput := Some i'\<rparr>
               in (case out of None \<Rightarrow> s1 | Some t \<Rightarrow> handleActorSend t s1))
      | _ \<Rightarrow> s)"

definition LiveScreen_step :: "(nat \<Rightarrow> real) \<Rightarrow> live_event \<Rightarrow> live_screen \<Rightarrow> live_screen" where
  "LiveScreen_step rnd e s =
     (case e of
        Tick \<Rightarrow> render_input (LiveScreen_tick s)
      | Idle d \<Rightarrow> s\<lparr>browser := idle d (browser s)\<rparr>
      | KeyDown key \<Rightarrow> render_input (LiveScreen_keyDown key s)
      | Rerender conv st \<Rightarrow>
          if mounted s
          then render_input (LiveScreen_effect rnd (clear_timeouts s\<lparr>conversation := conv, lsettings := st\<rparr>))
          else s
      | Unmount \<Rightarrow> if mounted s then (clear_timeouts s)\<lparr>mounted := False, typingInput := None\<rparr> else s)"

definition LiveScreen_run :: "(nat \<Rightarrow> real) \<Rightarrow> live_event list \<Rightarrow> live_screen \<Rightarrow> live_screen" where
  "LiveScreen_run rnd es s = fold (LiveScreen_step rnd) es s"

definition zero_draws :: "nat \<Rightarrow> real" where
  \<comment> \<open>a source of draws for runs that make none, or whose draws do not matter\<close>
  "zero_draws k = 0"

section \<open>\<open>LiveChat\<close> (src/src/App.jsx, lines 599-685)\<close>

datatype delay_setting = Natural | Seconds real
  \<comment> \<open>the value of a \<open>DelaySelector\<close>: the string \<open>natural\<close> or a number\<close>

record scene_message =
  sm_id :: string
  participantId :: string
  sm_text :: string
  startDelay :: delay_setting
  typingDelay :: delay_setting

text \<open>
  The two closures of \<open>processNextMessage\<close>: the outer one captures \<open>message\<close> and
  \<open>typingSpeedMs\<close>, the inner one \<open>message\<close>.
\<close>

datatype chat_cb = ShowTyping scene_message real | DeliverMessage scene_message

record live_chat =
  displayedMessages :: "(scene_message \<times> real) list"
  chatScriptIndex :: int
  chatTyping :: bool
  sceneMessages :: "scene_message list"
  forcedInput :: "forced_typing option"
  chatBrowser :: "chat_cb host"

definition activeMessage :: "live_chat \<Rightarrow> scene_message option" where
  \<comment> \<open>\<open>currentScene.config.messages[scriptIndex]\<close>, \<open>undefined\<close> out of range\<close>
  "activeMessage s =
     (if 0 \<le> chatScriptIndex s \<and> chatScriptIndex s < int (length (sceneMessages s))
      then Some (sceneMessages s ! nat (chatScriptIndex s)) else None)"

definition isActorTurn :: "live_chat \<Rightarrow> bool" where
  "isActorTurn s = (case activeMessage s of Some m \<Rightarrow> participantId m = ''you'' | None \<Rightarrow> False)"

definition startDelayMs :: "scene_message \<Rightarrow> real" where
  "startDelayMs message =
     js_or (case startDelay message of
              Natural \<Rightarrow> (real (length (sm_text message)) / 15) * 1000
            | Seconds d \<Rightarrow> d * 1000) 1000"

definition typingSpeedMs :: "scene_message \<Rightarrow> real" where
  "typingSpeedMs message =
     (case typingDelay message of
        Natural \<Rightarrow> max 30 (120 - real (length (sm_text message)))
      | Seconds d \<Rightarrow> js_or (d * 50) 50)"

definition processNextMessage :: "live_chat \<Rightarrow> live_chat" where
  \<comment> \<open>The cursor starts at 0 and is only ever incremented, so below the length it is in
      range and the \<open>None\<close> branch is not reached.\<close>
  "processNextMessage s =
     (if chatScriptIndex s \<ge> int (length (sceneMessages s)) \<or> isActorTurn s then s
      else case activeMessage s of
             None \<Rightarrow> s
           | Some message \<Rightarrow>
               s\<lparr>chatBrowser :=
                    snd (setTimeout (ShowTyping message (typingSpeedMs message)) (startDelayMs message)
                           (chatBrowser s))\<rparr>)"

definition render_forced_input :: "live_chat \<Rightarrow> live_chat" where
  \<comment> \<open>\<open>{isActorTurn && <ForcedTypingInput ... />}\<close>: the element has no key, so while
      \<open>isActorTurn\<close> stays true from one render to the next React keeps the component and
      the state of its hook; \<open>useState\<close> initialises the state only when the component is
      mounted\<close>
  "render_forced_input s =
     (if isActorTurn s
      then (case forcedInput s of None \<Rightarrow> s\<lparr>forcedInput := Some useForcedTyping_init\<rparr> | Some h \<Rightarrow> s)
      else s\<lparr>forcedInput := None\<rparr>)"

definition LiveChat_handleActorSend :: "string \<Rightarrow> live_chat \<Rightarrow> live_chat" where
  \<comment> \<open>called from the input, which is rendered only while \<open>activeMessage\<close> is defined\<close>
  "LiveChat_handleActorSend txt s =
     (case activeMessage s of
        None \<Rightarrow> s
      | Some m \<Rightarrow>
          s\<lparr>displayedMessages := displayedMessages s @ [(m\<lparr>sm_text := txt\<rparr>, clock (chatBrowser s))],
            chatScriptIndex := chatScriptIndex s + 1\<rparr>)"

definition LiveChat_mount :: "scene_message list \<Rightarrow> live_chat" where
  "LiveChat_mount msgs =
     processNextMessage (render_forced_input
       \<lparr>displayedMessages = [], chatScriptIndex = 0, chatTyping = False, sceneMessages = msgs,
        forcedInput = None, chatBrowser = host_init\<rparr>)"

datatype chat_event =
    ChatTick  \<comment> \<open>time passes until the next pending timer fires\<close>
  | ChatIdle real  \<comment> \<open>time passes and no timer fires\<close>
  | ChatKeyDown string  \<comment> \<open>a key is pressed in the input\<close>
  | ChatClickSend  \<comment> \<open>the send button of the input is clicked\<close>

definition LiveChat_tick :: "live_chat \<Rightarrow> live_chat" where
  \<comment> \<open>the delivery changes \<open>scriptIndex\<close>, so the effect calls \<open>processNextMessage\<close> again\<close>
  "LiveChat_tick s =
     (case earliest (pending (chatBrowser s)) of
        None \<Rightarrow> s
      | Some t \<Rightarrow>
          let s1 = s\<lparr>chatBrowser := take_timer t (chatBrowser s)\<rparr>
          in (case callback t of
                ShowTyping message speed \<Rightarrow>
                  s1\<lparr>chatTyping := True,
                     chatBrowser :=
                       snd (setTimeout (DeliverMessage message) (real (length (sm_text message)) * speed)
                              (chatBrowser s1))\<rparr>
              | DeliverMessage message \<Rightarrow>
                  processNextMessage (render_forced_input
                    (s1\<lparr>chatTyping := False,
                        displayedMessages := displayedMessages s1 @ [(message, clock (chatBrowser s1))],
                        chatScriptIndex := chatScriptIndex s1 + 1\<rparr>))))"

definition LiveChat_send :: "string option \<Rightarrow> live_chat \<Rightarrow> live_chat" where
  "LiveChat_send out s =
     (case out of
        None \<Rightarrow> s
      | Some txt \<Rightarrow> processNextMessage (render_forced_input (LiveChat_handleActorSend txt s)))"

definition LiveChat_step :: "chat_event \<Rightarrow> live_chat \<Rightarrow> live_chat" where
  "LiveChat_step e s =
     (case e of
        ChatTick \<Rightarrow> LiveChat_tick s
      | ChatIdle d \<Rightarrow> s\<lparr>chatBrowser := idle d (chatBrowser s)\<rparr>
      | ChatKeyDown key \<Rightarrow>
          (case (forcedInput s, activeMessage s) of
             (Some h, Some m) \<Rightarrow>
               (case handleKeyDown (sm_text m) key h of
                  (h', out) \<Rightarrow> LiveChat_send out (s\<lparr>forcedInput := Some h'\<rparr>))
           | _ \<Rightarrow> s)
      | ChatClickSend \<Rightarrow>
          (case (forcedInput s, activeMessage s) of
             (Some h, Some m) \<Rightarrow>
               LiveChat_send (if isComplete (sm_text m) h then Some (displayText h) else None) s
           | _ \<Rightarrow> s))"

definition LiveChat_run :: "chat_event list \<Rightarrow> live_chat \<Rightarrow> live_chat" where
  "LiveChat_run es s = fold LiveChat_step es s"



section \<open>\<open>LiveChatMode\<close> (src/src/App.jsx, lines 1199-1346)\<close>

text \<open>
  The messages of this variant have the fields of \<open>message\<close> (and a \<open>timestamp\<close>, which the
  delivery overwrites). The hook is the pattern variant of \<open>useForcedTyping\<close>; it belongs
  to \<open>LiveChatMode\<close> itself and lives as long as the component. The component keeps no
  handle of its timers and its effect returns no cleanup: when the parent stops rendering
  it (the button \<open>Exit\<close>, rendered in every state), the pending timers stay pending. Their
  callbacks still run when they are due and start the timers they start; the state
  updates of a component that is no longer mounted are dropped.
\<close>

record project =
  participants :: "string list"  \<comment> \<open>the names, in order\<close>
  project_messages :: "message list"

datatype mode_cb = DeliverTimeout message | AdvanceTimeout

record chat_mode =
  currentMessageIndex :: int
  chatMessages :: "(message \<times> real) list"
  modeTyping :: bool
  typingSender :: string
  waitingForInput :: bool
  hook :: forced_typing
  modeProject :: project
  modeMounted :: bool
  modeBrowser :: "mode_cb host"

definition currentMessage :: "chat_mode \<Rightarrow> message option" where
  "currentMessage s =
     (if 0 \<le> currentMessageIndex s \<and> currentMessageIndex s < int (length (project_messages (modeProject s)))
      then Some (project_messages (modeProject s) ! nat (currentMessageIndex s)) else None)"

definition isUser :: "project \<Rightarrow> message \<Rightarrow> bool" where
  \<comment> \<open>\<open>message.sender === project.participants[0]?.name\<close>\<close>
  "isUser p m = (case participants p of [] \<Rightarrow> False | n # _ \<Rightarrow> sender m = n)"

definition isComplete_chat :: "chat_mode \<Rightarrow> bool" where
  "isComplete_chat s = (currentMessageIndex s \<ge> int (length (project_messages (modeProject s))))"

definition LiveChatMode_effect :: "chat_mode \<Rightarrow> chat_mode" where
  \<comment> \<open>the \<open>useEffect\<close> with dependencies \<open>[currentMessageIndex, project.messages, reset]\<close>; the
      index starts at 0 and is only incremented or set to 0, so the \<open>None\<close> branch is not
      reached\<close>
  "LiveChatMode_effect s =
     (if currentMessageIndex s < int (length (project_messages (modeProject s))) then
        (case currentMessage s of
           None \<Rightarrow> s
         | Some message \<Rightarrow>
             if isUser (modeProject s) message
             then s\<lparr>waitingForInput := True, hook := reset (hook s)\<rparr>
             else s\<lparr>modeTyping := True, typingSender := sender message,
                    modeBrowser := snd (setTimeout (DeliverTimeout message) (js_or (delay message) 2 * 1000)
                                          (modeBrowser s))\<rparr>)
      else s)"

definition onComplete :: "string \<Rightarrow> chat_mode \<Rightarrow> chat_mode" where
  \<comment> \<open>the callback given to the hook; the input is rendered only while \<open>currentMessage\<close> is
      defined\<close>
  "onComplete completedText s =
     (case currentMessage s of
        None \<Rightarrow> s
      | Some m \<Rightarrow>
          s\<lparr>chatMessages := chatMessages s @ [(m\<lparr>msg_text := completedText\<rparr>, clock (modeBrowser s))],
            waitingForInput := False,
            modeBrowser := snd (setTimeout AdvanceTimeout 500 (modeBrowser s))\<rparr>)"

definition LiveChatMode_mount :: "project \<Rightarrow> chat_mode" where
  "LiveChatMode_mount p =
     LiveChatMode_effect
       \<lparr>currentMessageIndex = 0, chatMessages = [], modeTyping = False, typingSender = '''',
        waitingForInput = False, hook = useForcedTyping_init, modeProject = p, modeMounted = True,
        modeBrowser = host_init\<rparr>"

datatype mode_event =
    ModeTick  \<comment> \<open>time passes until the next pending timer fires\<close>
  | ModeIdle real  \<comment> \<open>time passes and no timer fires\<close>
  | ModeKeyDown string  \<comment> \<open>a key is pressed in the input\<close>
  | Restart  \<comment> \<open>the button \<open>Restart Scene\<close>\<close>
  | Exit  \<comment> \<open>the button \<open>Exit\<close> or \<open>Exit Live Mode\<close> (\<open>onExit\<close>): the component is unmounted\<close>

definition LiveChatMode_tick :: "chat_mode \<Rightarrow> chat_mode" where
  \<comment> \<open>after the exit the callback still runs: its state updates are dropped, the timer
      it starts is started, and no effect follows\<close>
  "LiveChatMode_tick s =
     (case earliest (pending (modeBrowser s)) of
        None \<Rightarrow> s
      | Some t \<Rightarrow>
          let s1 = s\<lparr>modeBrowser := take_timer t (modeBrowser s)\<rparr>
          in (case callback t of
                DeliverTimeout message \<Rightarrow>
                  if modeMounted s1
                  then s1\<lparr>modeTyping := False,
                          chatMessages := chatMessages s1 @ [(message, clock (modeBrowser s1))],
                          modeBrowser := snd (setTimeout AdvanceTimeout 500 (modeBrowser s1))\<rparr>
                  else s1\<lparr>modeBrowser := snd (setTimeout AdvanceTimeout 500 (modeBrowser s1))\<rparr>
              | AdvanceTimeout \<Rightarrow>
                  if modeMounted s1
                  then LiveChatMode_effect (s1\<lparr>currentMessageIndex := currentMessageIndex s1 + 1\<rparr>)
                  else s1))"

definition LiveChatMode_keyDown :: "string \<Rightarrow> chat_mode \<Rightarrow> chat_mode" where
  \<comment> \<open>the input is rendered while \<open>waitingForInput && !isComplete_chat\<close>; the hook's
      \<open>scriptText\<close> is \<open>currentMessage?.text || ''\<close>\<close>
  "LiveChatMode_keyDown key s =
     (if modeMounted s \<and> waitingForInput s \<and> \<not> isComplete_chat s then
        (case handleKeyDown_pattern (case currentMessage s of None \<Rightarrow> '''' | Some m \<Rightarrow> msg_text m) key (hook s) of
           (h', out) \<Rightarrow>
             let s1 = s\<lparr>hook := h'\<rparr>
             in (case out of None \<Rightarrow> s1 | Some t \<Rightarrow> onComplete t s1))
      else s)"

definition handleRestart :: "chat_mode \<Rightarrow> chat_mode" where
  "handleRestart s =
     s\<lparr>currentMessageIndex := 0, chatMessages := [], modeTyping := False, waitingForInput := False,
       hook := reset (hook s)\<rparr>"

definition LiveChatMode_step :: "mode_event \<Rightarrow> chat_mode \<Rightarrow> chat_mode" where
  \<comment> \<open>the restart button is rendered only when \<open>isComplete_chat\<close>; the restart changes the
      index (when the script is not empty), so the effect runs again; the exit cancels
      nothing\<close>
  "LiveChatMode_step e s =
     (case e of
        ModeTick \<Rightarrow> LiveChatMode_tick s
      | ModeIdle d \<Rightarrow> s\<lparr>modeBrowser := idle d (modeBrowser s)\<rparr>
      | ModeKeyDown key \<Rightarrow> LiveChatMode_keyDown key s
      | Restart \<Rightarrow>
          if modeMounted s \<and> isComplete_chat s then LiveChatMode_effect (handleRestart s) else s
      | Exit \<Rightarrow> s\<lparr>modeMounted := False\<rparr>)"

definition LiveChatMode_run :: "mode_event list \<Rightarrow> chat_mode \<Rightarrow> chat_mode" where
  "LiveChatMode_run es s = fold LiveChatMode_step es s"

section \<open>\<open>LiveModeView.handleKeyDown\<close> (src/src/App.jsx, lines 1946-1999)\<close>

text \<open>
  The third version keeps the forced text and its index in the state of the application.
  The handler returns the next state and, when Enter has sent the actor's line and the
  next line of the script is not the actor's, the timer it starts: the delay, the message
  and the index that the timer's callback captures. \<open>r\<close> is the draw of \<open>Math.random\<close>.
\<close>

record project_message =
  pm_id :: string
  pm_text :: string
  pm_isActor :: bool

record live_project =
  lp_messages :: "project_message list"
  lp_mode :: string  \<comment> \<open>\<open>chat-only\<close> or \<open>sleep-mode\<close>\<close>
  delayMode :: string
  customDelay :: real
  lp_startDelay :: real

record live_mode =
  forcedText :: string
  forcedTextIndex :: int
  modeInputValue :: string
  liveMessages :: "project_message list"
  liveMessageIndex :: int  \<comment> \<open>\<open>currentMessageIndex\<close>; it starts at 0 and is only set to larger indices\<close>

definition LiveModeView_handleKeyDown ::
  "real \<Rightarrow> live_project \<Rightarrow> string \<Rightarrow> live_mode \<Rightarrow> live_mode \<times> (real \<times> project_message \<times> int) option" where
  "LiveModeView_handleKeyDown r p key s =
     (if forcedText s = '''' then (s, None)
      else if key = ''Backspace'' then
        (if forcedTextIndex s > 0
         then (s\<lparr>forcedTextIndex := forcedTextIndex s - 1,
                 modeInputValue := substring0 (forcedText s) (forcedTextIndex s - 1)\<rparr>, None)
         else (s, None))
      else if key = ''Enter'' then
        (if forcedTextIndex s \<ge> int (length (forcedText s)) then
           (let actorMessages = filter pm_isActor (lp_messages p);
                n = length (filter pm_isActor (liveMessages s))
            in if n < length actorMessages then
                 (let s1 = s\<lparr>liveMessages := liveMessages s @ [actorMessages ! n], modeInputValue := ''''\<rparr>;
                      nextNonActorIndex = liveMessageIndex s + 1
                  in if 0 \<le> nextNonActorIndex \<and> nextNonActorIndex < int (length (lp_messages p))
                        \<and> \<not> pm_isActor (lp_messages p ! nat nextNonActorIndex)
                     then (s1, Some (if delayMode p = ''natural'' then r * 2000 + 1000 else customDelay p * 1000,
                                     lp_messages p ! nat nextNonActorIndex, nextNonActorIndex))
                     else (s1, None))
               else (s, None))
         else (s, None))
      else if length key = 1 \<or> key = '' '' then
        (if forcedTextIndex s < int (length (forcedText s))
         then (s\<lparr>forcedTextIndex := forcedTextIndex s + 1,
                 modeInputValue := substring0 (forcedText s) (forcedTextIndex s + 1)\<rparr>, None)
         else (s, None))
      else (s, None))"

section \<open>\<open>FlowProp\<close>, the live session of the third version (src/src/App.jsx, lines 1439-2109)\<close>

text \<open>
  The third version keeps the whole state of the live session in the root component
  \<open>FlowProp\<close>: \<open>MainView\<close> and \<open>LiveModeView\<close> are functions of its render and have no state
  of their own. The root is never unmounted, so the state updates of a timer's callback
  are applied whichever view is shown. No handle of a timer is kept and no timer is
  cleared. A callback captures the project of the render that started its timer.
\<close>

datatype flow_cb =
    LockScreenTimeout live_project  \<comment> \<open>the timer of \<open>handleGoLive\<close>\<close>
  | NextMessageTimeout live_project project_message int
      \<comment> \<open>the timer of \<open>handleKeyDown\<close>, with \<open>nextMessage\<close> and \<open>nextNonActorIndex\<close>\<close>

record flow_prop =
  currentView :: string
  isLiveMode :: bool
  showLockScreen :: bool
  currentProject :: live_project
  live :: live_mode
  flowBrowser :: "flow_cb host"
  flowDraws :: nat  \<comment> \<open>the number of calls of \<open>Math.random\<close> so far\<close>

definition slice_from :: "'a list \<Rightarrow> int \<Rightarrow> 'a list" where
  \<comment> \<open>\<open>xs.slice(n)\<close>: a negative \<open>n\<close> counts from the end\<close>
  "slice_from xs n = (if 0 \<le> n then drop (nat n) xs else drop (nat (int (length xs) + n)) xs)"

definition startLiveMode :: "live_project \<Rightarrow> flow_prop \<Rightarrow> flow_prop" where
  "startLiveMode p s =
     (let s1 = s\<lparr>isLiveMode := True, currentView := ''live'',
                  live := (live s)\<lparr>liveMessages := [], liveMessageIndex := 0\<rparr>\<rparr>
      in (case filter pm_isActor (lp_messages p) of
            [] \<Rightarrow> s1
          | a # _ \<Rightarrow>
              s1\<lparr>live := (live s1)\<lparr>forcedText := pm_text a, forcedTextIndex := 0, modeInputValue := ''''\<rparr>\<rparr>))"

definition handleGoLive :: "flow_prop \<Rightarrow> flow_prop" where
  "handleGoLive s =
     (let p = currentProject s
      in if lp_mode p = ''sleep-mode''
         then s\<lparr>showLockScreen := True,
                flowBrowser := snd (setTimeout (LockScreenTimeout p) (js_or (lp_startDelay p * 1000) 3000)
                                      (flowBrowser s))\<rparr>
         else startLiveMode p s)"

definition FlowProp_tick :: "flow_prop \<Rightarrow> flow_prop" where
  "FlowProp_tick s =
     (case earliest (pending (flowBrowser s)) of
        None \<Rightarrow> s
      | Some t \<Rightarrow>
          let s1 = s\<lparr>flowBrowser := take_timer t (flowBrowser s)\<rparr>
          in (case callback t of
                LockScreenTimeout p \<Rightarrow> startLiveMode p (s1\<lparr>showLockScreen := False\<rparr>)
              | NextMessageTimeout p nextMessage nextNonActorIndex \<Rightarrow>
                  let s2 = s1\<lparr>live := (live s1)\<lparr>liveMessages := liveMessages (live s1) @ [nextMessage],
                                                  liveMessageIndex := nextNonActorIndex\<rparr>\<rparr>
                  in (case find pm_isActor (slice_from (lp_messages p) (nextNonActorIndex + 1)) of
                        None \<Rightarrow> s2
                      | Some nextActor \<Rightarrow>
                          s2\<lparr>live := (live s2)\<lparr>forcedText := pm_text nextActor,
                                                 forcedTextIndex := 0\<rparr>\<rparr>)))"

definition LiveModeView_rendered :: "flow_prop \<Rightarrow> bool" where
  \<comment> \<open>\<open>renderView\<close>: the lock screen hides every view\<close>
  "LiveModeView_rendered s = (\<not> showLockScreen s \<and> currentView s = ''live'')"

definition MainView_rendered :: "flow_prop \<Rightarrow> bool" where
  "MainView_rendered s = (\<not> showLockScreen s \<and> currentView s = ''main'')"

definition FlowProp_keyDown :: "(nat \<Rightarrow> real) \<Rightarrow> string \<Rightarrow> flow_prop \<Rightarrow> flow_prop" where
  \<comment> \<open>\<open>Math.random\<close> is called only for a timer in delay mode \<open>natural\<close>\<close>
  "FlowProp_keyDown rnd key s =
     (case LiveModeView_handleKeyDown (rnd (flowDraws s)) (currentProject s) key (live s) of
        (l, None) \<Rightarrow> s\<lparr>live := l\<rparr>
      | (l, Some (d, nextMessage, nextNonActorIndex)) \<Rightarrow>
          s\<lparr>live := l,
            flowBrowser := snd (setTimeout (NextMessageTimeout (currentProject s) nextMessage nextNonActorIndex) d
                                  (flowBrowser s)),
            flowDraws := (if delayMode (currentProject s) = ''natural'' then flowDraws s + 1 else flowDraws s)\<rparr>)"

definition FlowProp_open :: "live_project \<Rightarrow> flow_prop" where
  \<comment> \<open>the initial state of the root, with a project opened in the main view\<close>
  "FlowProp_open p =
     \<lparr>currentView = ''main'', isLiveMode = False, showLockScreen = False, currentProject = p,
      live = \<lparr>forcedText = '''', forcedTextIndex = 0, modeInputValue = '''', liveMessages = [],
               liveMessageIndex = 0\<rparr>,
      flowBrowser = host_init, flowDraws = 0\<rparr>"

datatype flow_event =
    FlowTick  \<comment> \<open>time passes until the next pending timer fires\<close>
  | FlowIdle real  \<comment> \<open>time passes and no timer fires\<close>
  | FlowKeyDown string  \<comment> \<open>a key is pressed in the input of the live view\<close>
  | GoLive  \<comment> \<open>the button \<open>Go Live\<close> of the main view, disabled while the script is empty\<close>
  | ExitLive  \<comment> \<open>the back button of the live view\<close>

definition FlowProp_step :: "(nat \<Rightarrow> real) \<Rightarrow> flow_event \<Rightarrow> flow_prop \<Rightarrow> flow_prop" where
  "FlowProp_step rnd e s =
     (case e of
        FlowTick \<Rightarrow> FlowProp_tick s
      | FlowIdle d \<Rightarrow> s\<lparr>flowBrowser := idle d (flowBrowser s)\<rparr>
      | FlowKeyDown key \<Rightarrow> if LiveModeView_rendered s then FlowProp_keyDown rnd key s else s
      | GoLive \<Rightarrow>
          if MainView_rendered s \<and> lp_messages (currentProject s) \<noteq> [] then handleGoLive s else s
      | ExitLive \<Rightarrow>
          if LiveModeView_rendered s then s\<lparr>isLiveMode := False, currentView := ''main''\<rparr> else s)"

definition FlowProp_run :: "(nat \<Rightarrow> real) \<Rightarrow> flow_event list \<Rightarrow> flow_prop \<Rightarrow> flow_prop" where
  "FlowProp_run rnd es s = fold (FlowProp_step rnd) es s"

section \<open>What a session shows and has scheduled\<close>

text \<open>
  The pending timers of a host as the list of what remains to wait and what will run,
  without the timers' identifiers and the absolute clock.
\<close>

definition timers_view :: "'cb host \<Rightarrow> (real \<times> 'cb) list" where
  "timers_view h = map (\<lambda>t. (due t - clock h, callback t)) (pending h)"

definition playback_view :: "live_screen \<Rightarrow> (message \<times> real) list \<times> bool \<times> int \<times> (real \<times> live_cb) list" where
  "playback_view s = (messages s, isTyping s, currentScriptIndex s, timers_view (browser s))"

definition mode_view ::
  "chat_mode \<Rightarrow> int \<times> (message \<times> real) list \<times> bool \<times> bool \<times> forced_typing \<times> (real \<times> mode_cb) list" where
  "mode_view s =
     (currentMessageIndex s, chatMessages s, modeTyping s, waitingForInput s, hook s, timers_view (modeBrowser s))"

text \<open>
  The timers that the \<open>forEach\<close> of the \<open>LiveScreen\<close> effect starts, as a list of delays and
  callbacks: \<open>c\<close> is \<open>cumulativeDelay\<close>, \<open>k\<close> the number of draws made so far. The lemma
  \<open>foldl_forEach_view\<close> below shows that the loop of the source starts exactly these.
\<close>

fun schedule_of :: "(nat \<Rightarrow> real) \<Rightarrow> settings \<Rightarrow> real \<Rightarrow> nat \<Rightarrow> message list \<Rightarrow> (real \<times> live_cb) list" where
  "schedule_of rnd st c k [] = []"
| "schedule_of rnd st c k (m # ms) =
     (let natural = (timingMode st = ''natural'');
          messageDelay = (if natural then real (length (msg_text m)) * 50 + rnd k * 500 else delay m * 1000);
          k0 = (if natural then k + 1 else k);
          contact = (sender m \<noteq> ''me'');
          c1 = (if contact then c + (1000 + rnd k0 * 1000) else c);
          k1 = (if contact then k0 + 1 else k0)
      in (if contact then [(max 0 c, TypingTimeout)] else [])
         @ [(max 0 c1, MessageTimeout m)]
         @ schedule_of rnd st (c1 + messageDelay) k1 ms)"

definition lastEntryTime :: "live_chat \<Rightarrow> real" where
  \<comment> \<open>the time of the latest entry of the transcript, the start of the session before the
      first one\<close>
  "lastEntryTime s = (if displayedMessages s = [] then 0 else snd (last (displayedMessages s)))"


section \<open>Invariants of the sessions\<close>

definition mode_inv :: "chat_mode \<Rightarrow> bool" where
  \<comment> \<open>at most one timer is pending, and none while the input waits or the scene is complete\<close>
  "mode_inv s =
     (length (pending (modeBrowser s)) \<le> 1
      \<and> (waitingForInput s \<longrightarrow> pending (modeBrowser s) = [])
      \<and> (isComplete_chat s \<longrightarrow> pending (modeBrowser s) = [])
      \<and> 0 \<le> currentMessageIndex s)"

definition timers_tracked :: "live_screen \<Rightarrow> bool" where
  \<comment> \<open>every pending timer is listed in \<open>timeouts.current\<close>, and none is pending once the
      component is unmounted\<close>
  "timers_tracked s =
     ((\<forall>t \<in> set (pending (browser s)). timer_id t \<in> set (timeouts s))
      \<and> (\<not> mounted s \<longrightarrow> pending (browser s) = [] \<and> typingInput s = None))"

definition chat_inv :: "live_chat \<Rightarrow> bool" where
  \<comment> \<open>the transcript holds the lines before the cursor, in order; at most one timer is
      pending, and it belongs to the line at the cursor; none is pending on an actor's line\<close>
  "chat_inv s =
     (0 \<le> chatScriptIndex s \<and> chatScriptIndex s \<le> int (length (sceneMessages s))
      \<and> map (sm_id \<circ> fst) (displayedMessages s) = take (nat (chatScriptIndex s)) (map sm_id (sceneMessages s))
      \<and> length (pending (chatBrowser s)) \<le> 1
      \<and> (\<forall>t \<in> set (pending (chatBrowser s)).
            \<not> isActorTurn s \<and> chatScriptIndex s < int (length (sceneMessages s))
            \<and> (case callback t of
                   ShowTyping m sp \<Rightarrow> m = sceneMessages s ! nat (chatScriptIndex s)
                 | DeliverMessage m \<Rightarrow> m = sceneMessages s ! nat (chatScriptIndex s)))
      \<and> (forcedInput s \<noteq> None \<longrightarrow> isActorTurn s))"



section \<open>Properties of the keystroke handlers\<close>

lemma pattern_step_inv:
  "int (length (displayText s)) = scriptIndex s \<Longrightarrow>
   int (length (displayText (fst (handleKeyDown_pattern t k s)))) = scriptIndex (fst (handleKeyDown_pattern t k s))"
  by (auto simp: handleKeyDown_pattern_def Let_def charAt_def slice_drop_last_def key_matches_def)

lemma feed_pattern_inv:
  "int (length (displayText s)) = scriptIndex s \<Longrightarrow>
   int (length (displayText (feed_pattern ks s))) = scriptIndex (feed_pattern ks s)"
proof (induction ks arbitrary: s)
  case Nil
  then show ?case by simp
next
  case (Cons a ks)
  obtain t k where a: "a = (t, k)" by (cases a)
  show ?case using Cons.IH [OF pattern_step_inv [OF Cons.prems, of t k]] by (simp add: a)
qed

lemma erase_A: "scriptIndex s = 0 \<Longrightarrow> handleKeyDown t ''Backspace'' s = (s, None)"
  by (simp add: handleKeyDown_def)

lemma erase_P:
  "scriptIndex s = 0 \<Longrightarrow> displayText s = '''' \<Longrightarrow> handleKeyDown_pattern t ''Backspace'' s = (s, None)"
  by (simp add: handleKeyDown_pattern_def key_matches_def)

lemma funpow_fix: "f x = x \<Longrightarrow> (f ^^ n) x = x"
  by (induction n) auto

text \<open>
  C9. An erase signal at revealed length 0 changes nothing, however often it is repeated,
  and the revealed length never becomes negative: in \<open>useForcedTyping\<close> (any state with
  \<open>scriptIndex = 0\<close>), on the on-screen keyboard (\<open>handleBackspace\<close>), and in the pattern
  variant of \<open>useForcedTyping\<close> in every state that a run of keys reaches from the initial
  state, whatever the script texts of the renders were (\<open>reset\<close> and a completed Enter
  return to the initial state).
\<close>

theorem erase_at_zero_is_noop:
  "(scriptIndex s = 0 \<longrightarrow>
      handleKeyDown t ''Backspace'' s = (s, None)
      \<and> ((\<lambda>x. fst (handleKeyDown t ''Backspace'' x)) ^^ n) s = s)
   \<and> (currentIndex k = 0 \<longrightarrow> handleBackspace k = k \<and> (handleBackspace ^^ n) k = k)
   \<and> (scriptIndex (feed_pattern ks useForcedTyping_init) = 0 \<longrightarrow>
        handleKeyDown_pattern t ''Backspace'' (feed_pattern ks useForcedTyping_init)
          = (feed_pattern ks useForcedTyping_init, None)
        \<and> ((\<lambda>x. fst (handleKeyDown_pattern t ''Backspace'' x)) ^^ n) (feed_pattern ks useForcedTyping_init)
          = feed_pattern ks useForcedTyping_init)
   \<and> (0 \<le> scriptIndex s \<longrightarrow> 0 \<le> scriptIndex (fst (handleKeyDown t ''Backspace'' s)))
   \<and> (0 \<le> currentIndex k \<longrightarrow> 0 \<le> currentIndex (handleBackspace k))
   \<and> (0 \<le> scriptIndex s \<longrightarrow> 0 \<le> scriptIndex (fst (handleKeyDown_pattern t ''Backspace'' s)))"
proof -
  let ?p = "feed_pattern ks useForcedTyping_init"
  have inv: "int (length (displayText ?p)) = scriptIndex ?p"
    by (rule feed_pattern_inv) (simp add: useForcedTyping_init_def)
  have A: "scriptIndex s = 0 \<longrightarrow>
      handleKeyDown t ''Backspace'' s = (s, None)
      \<and> ((\<lambda>x. fst (handleKeyDown t ''Backspace'' x)) ^^ n) s = s"
    by (auto simp: erase_A intro!: funpow_fix)
  have K: "currentIndex k = 0 \<longrightarrow> handleBackspace k = k \<and> (handleBackspace ^^ n) k = k"
    by (auto simp: handleBackspace_def intro!: funpow_fix)
  have P: "scriptIndex ?p = 0 \<longrightarrow>
        handleKeyDown_pattern t ''Backspace'' ?p = (?p, None)
        \<and> ((\<lambda>x. fst (handleKeyDown_pattern t ''Backspace'' x)) ^^ n) ?p = ?p"
  proof
    assume z: "scriptIndex ?p = 0"
    with inv have e: "displayText ?p = ''''" by simp
    show "handleKeyDown_pattern t ''Backspace'' ?p = (?p, None)
        \<and> ((\<lambda>x. fst (handleKeyDown_pattern t ''Backspace'' x)) ^^ n) ?p = ?p"
      using erase_P [OF z e, of t] by (auto intro!: funpow_fix)
  qed
  have N1: "0 \<le> scriptIndex s \<longrightarrow> 0 \<le> scriptIndex (fst (handleKeyDown t ''Backspace'' s))"
    by (simp add: handleKeyDown_def)
  have N2: "0 \<le> currentIndex k \<longrightarrow> 0 \<le> currentIndex (handleBackspace k)"
    by (simp add: handleBackspace_def)
  have N3: "0 \<le> scriptIndex s \<longrightarrow> 0 \<le> scriptIndex (fst (handleKeyDown_pattern t ''Backspace'' s))"
    by (simp add: handleKeyDown_pattern_def Let_def key_matches_def)
  from A K P N1 N2 N3 show ?thesis by blast
qed

theorem erase_at_zero_is_noop_witness:
  "scriptIndex useForcedTyping_init = 0
   \<and> ((\<lambda>x. fst (handleKeyDown ''ok'' ''Backspace'' x)) ^^ 5) useForcedTyping_init = useForcedTyping_init
   \<and> currentIndex keyboard_init = 0
   \<and> (handleBackspace ^^ 5) keyboard_init = keyboard_init
   \<and> scriptIndex (feed_pattern [(''ok'', ''x''), (''ok'', ''Backspace'')] useForcedTyping_init) = 0
   \<and> ((\<lambda>x. fst (handleKeyDown_pattern ''ok'' ''Backspace'' x)) ^^ 5)
        (feed_pattern [(''ok'', ''x''), (''ok'', ''Backspace'')] useForcedTyping_init)
      = feed_pattern [(''ok'', ''x''), (''ok'', ''Backspace'')] useForcedTyping_init"
proof -
  have a: "scriptIndex useForcedTyping_init = 0" by (simp add: useForcedTyping_init_def)
  have b: "currentIndex keyboard_init = 0" by (simp add: keyboard_init_def)
  have c: "scriptIndex (feed_pattern [(''ok'', ''x''), (''ok'', ''Backspace'')] useForcedTyping_init) = 0"
    by (simp add: useForcedTyping_init_def handleKeyDown_pattern_def key_matches_def key_class_def
        charAt_def slice_drop_last_def Let_def)
  show ?thesis
    using erase_at_zero_is_noop [of useForcedTyping_init "''ok''" 5 keyboard_init
        "[(''ok'', ''x''), (''ok'', ''Backspace'')]"] a b c
    by blast
qed

text \<open>
  Forced text fidelity where it holds: from the initial state of \<open>useForcedTyping\<close> and of
  \<open>ForcedTypingInput\<close>, as many single-character keys as the target has code units and then
  Enter pass exactly the target to \<open>onComplete\<close>, whichever keys they were.
\<close>

lemma take_charAt: "i < length t \<Longrightarrow> take i t @ charAt t (int i) = take (Suc i) t"
  by (simp add: charAt_def take_Suc_conv_app_nth)

lemma feed_printable_A:
  "\<forall>k \<in> set keys. length k = 1 \<Longrightarrow> i + length keys \<le> length t \<Longrightarrow>
   feed (handleKeyDown t) keys \<lparr>displayText = take i t, scriptIndex = int i\<rparr>
     = (\<lparr>displayText = take (i + length keys) t, scriptIndex = int (i + length keys)\<rparr>, [])"
proof (induction keys arbitrary: i)
  case Nil
  then show ?case by simp
next
  case (Cons k keys)
  from Cons.prems have k: "length k = 1" and lt: "i < length t" by auto
  from k have nb: "k \<noteq> ''Backspace''" and ne: "k \<noteq> ''Enter''" by auto
  have step: "handleKeyDown t k \<lparr>displayText = take i t, scriptIndex = int i\<rparr>
      = (\<lparr>displayText = take (Suc i) t, scriptIndex = int (Suc i)\<rparr>, None)"
    using k nb ne lt by (simp add: handleKeyDown_def take_charAt)
  have "feed (handleKeyDown t) keys \<lparr>displayText = take (Suc i) t, scriptIndex = int (Suc i)\<rparr>
     = (\<lparr>displayText = take (Suc i + length keys) t, scriptIndex = int (Suc i + length keys)\<rparr>, [])"
    using Cons.prems by (intro Cons.IH) auto
  with step show ?case by simp
qed

lemma feed_append:
  "feed h (ks @ ls) s = (case feed h ks s of (s', o1) \<Rightarrow> (case feed h ls s' of (s'', o2) \<Rightarrow> (s'', o1 @ o2)))"
  by (induction ks arbitrary: s) (auto split: prod.splits option.splits)

lemma fidelity_useForcedTyping:
  assumes "\<forall>k \<in> set keys. length k = 1" and "length keys = length t"
  shows "snd (feed (handleKeyDown t) (keys @ [''Enter'']) useForcedTyping_init) = [t]"
proof -
  have "feed (handleKeyDown t) keys \<lparr>displayText = take 0 t, scriptIndex = int 0\<rparr>
     = (\<lparr>displayText = take (0 + length keys) t, scriptIndex = int (0 + length keys)\<rparr>, [])"
    using assms by (intro feed_printable_A) auto
  then have "feed (handleKeyDown t) keys useForcedTyping_init = (\<lparr>displayText = t, scriptIndex = int (length t)\<rparr>, [])"
    using assms by (simp add: useForcedTyping_init_def)
  then show ?thesis by (simp add: feed_append handleKeyDown_def)
qed

lemma feed_printable_I:
  "\<forall>k \<in> set keys. length k = 1 \<Longrightarrow> i + length keys \<le> length t \<Longrightarrow>
   feed (ForcedTypingInput_handleKeyDown t) keys \<lparr>inputValue = take i t, inputIndex = int i\<rparr>
     = (\<lparr>inputValue = take (i + length keys) t, inputIndex = int (i + length keys)\<rparr>, [])"
proof (induction keys arbitrary: i)
  case Nil
  then show ?case by simp
next
  case (Cons k keys)
  from Cons.prems have k: "length k = 1" and lt: "i < length t" by auto
  from k have nb: "k \<noteq> ''Backspace''" and ne: "k \<noteq> ''Enter''" by auto
  have step: "ForcedTypingInput_handleKeyDown t k \<lparr>inputValue = take i t, inputIndex = int i\<rparr>
      = (\<lparr>inputValue = take (Suc i) t, inputIndex = int (Suc i)\<rparr>, None)"
    using k nb ne lt by (simp add: ForcedTypingInput_handleKeyDown_def substring0_def nat_add_distrib)
  have "feed (ForcedTypingInput_handleKeyDown t) keys \<lparr>inputValue = take (Suc i) t, inputIndex = int (Suc i)\<rparr>
     = (\<lparr>inputValue = take (Suc i + length keys) t, inputIndex = int (Suc i + length keys)\<rparr>, [])"
    using Cons.prems by (intro Cons.IH) auto
  with step show ?case by simp
qed

lemma fidelity_ForcedTypingInput:
  assumes "\<forall>k \<in> set keys. length k = 1" and "length keys = length t"
  shows "snd (feed (ForcedTypingInput_handleKeyDown t) (keys @ [''Enter'']) ForcedTypingInput_init) = [t]"
proof -
  have "feed (ForcedTypingInput_handleKeyDown t) keys \<lparr>inputValue = take 0 t, inputIndex = int 0\<rparr>
     = (\<lparr>inputValue = take (0 + length keys) t, inputIndex = int (0 + length keys)\<rparr>, [])"
    using assms by (intro feed_printable_I) auto
  then have "feed (ForcedTypingInput_handleKeyDown t) keys ForcedTypingInput_init
      = (\<lparr>inputValue = t, inputIndex = int (length t)\<rparr>, [])"
    using assms by (simp add: ForcedTypingInput_init_def)
  then show ?thesis by (simp add: feed_append ForcedTypingInput_handleKeyDown_def)
qed

lemma keyboard_throws:
  "currentIndex st < int (length FORCED_TEXT) \<Longrightarrow> handleKeyPress (KeyValue v) st = Inl TypeError"
  by (simp add: handleKeyPress_def showKeyPopup_def)

text \<open>
  C2. The claim fails on the on-screen keyboard: \<open>Key\<close> hands the key's label to
  \<open>handleKeyPress\<close>, \<open>showKeyPopup\<close> reads \<open>currentTarget\<close> of it and throws before any
  character is revealed. The first key press on the initial state throws, the state
  stays as it was, and Enter on it does not finish.
\<close>

theorem keyboard_key_press_throws:
  "handleKeyPress (KeyValue ''Q'') keyboard_init = Inl TypeError
   \<and> handleEnter keyboard_init = keyboard_init"
  by (simp add: handleKeyPress_def showKeyPopup_def keyboard_init_def FORCED_TEXT_def handleEnter_def)

text \<open>
  Where the claim C6 holds: in \<open>useForcedTyping\<close> of lines 116-144, in \<open>ForcedTypingInput\<close>
  and in \<open>LiveModeView\<close> every key of one character reveals exactly one more character
  while the text is not complete and changes nothing once it is, whichever key it is.
\<close>

lemma single_character_key_advances:
  assumes "length key = 1"
  shows "handleKeyDown t key s =
           (if scriptIndex s < int (length t)
            then (s\<lparr>displayText := displayText s @ charAt t (scriptIndex s),
                    scriptIndex := scriptIndex s + 1\<rparr>, None)
            else (s, None))"
    and "ForcedTypingInput_handleKeyDown t key i =
           (if inputIndex i < int (length t)
            then (i\<lparr>inputIndex := inputIndex i + 1, inputValue := substring0 t (inputIndex i + 1)\<rparr>, None)
            else (i, None))"
    and "forcedText v \<noteq> '''' \<Longrightarrow> LiveModeView_handleKeyDown r p key v =
           (if forcedTextIndex v < int (length (forcedText v))
            then (v\<lparr>forcedTextIndex := forcedTextIndex v + 1,
                    modeInputValue := substring0 (forcedText v) (forcedTextIndex v + 1)\<rparr>, None)
            else (v, None))"
proof -
  from assms have nb: "key \<noteq> ''Backspace''" and ne: "key \<noteq> ''Enter''" by auto
  show "handleKeyDown t key s =
           (if scriptIndex s < int (length t)
            then (s\<lparr>displayText := displayText s @ charAt t (scriptIndex s),
                    scriptIndex := scriptIndex s + 1\<rparr>, None)
            else (s, None))"
    using assms nb ne by (simp add: handleKeyDown_def)
  show "ForcedTypingInput_handleKeyDown t key i =
           (if inputIndex i < int (length t)
            then (i\<lparr>inputIndex := inputIndex i + 1, inputValue := substring0 t (inputIndex i + 1)\<rparr>, None)
            else (i, None))"
    using assms nb ne by (simp add: ForcedTypingInput_handleKeyDown_def)
  show "forcedText v \<noteq> '''' \<Longrightarrow> LiveModeView_handleKeyDown r p key v =
           (if forcedTextIndex v < int (length (forcedText v))
            then (v\<lparr>forcedTextIndex := forcedTextIndex v + 1,
                    modeInputValue := substring0 (forcedText v) (forcedTextIndex v + 1)\<rparr>, None)
            else (v, None))"
    using assms nb ne by (simp add: LiveModeView_handleKeyDown_def)
qed

text \<open>
  C6. The claim fails in the pattern variant of \<open>useForcedTyping\<close>: the key \<open>@\<close> is a single
  character, the revealed length 0 is below the length of the target, and the key is
  ignored, where \<open>useForcedTyping\<close> of lines 116-144 reveals the next character for the same
  key and the pattern variant does for the key \<open>x\<close>.
\<close>

theorem pattern_ignores_at_sign:
  "length ''@'' = 1
   \<and> handleKeyDown_pattern ''ab'' ''@'' useForcedTyping_init = (useForcedTyping_init, None)
   \<and> handleKeyDown ''ab'' ''@'' useForcedTyping_init = (\<lparr>displayText = ''a'', scriptIndex = 1\<rparr>, None)
   \<and> handleKeyDown_pattern ''ab'' ''x'' useForcedTyping_init = (\<lparr>displayText = ''a'', scriptIndex = 1\<rparr>, None)"
  by (simp add: handleKeyDown_pattern_def handleKeyDown_def useForcedTyping_init_def key_matches_def
      key_class_def is_space_def charAt_def Let_def)

section \<open>Properties of \<open>LiveScreen\<close>\<close>

lemma indexOf_nth: "distinct xs \<Longrightarrow> i < length xs \<Longrightarrow> indexOf xs (xs ! i) = int i"
proof (induction xs arbitrary: i)
  case Nil
  then show ?case by simp
next
  case (Cons x xs)
  show ?case
  proof (cases i)
    case 0
    then show ?thesis by simp
  next
    case (Suc j)
    with Cons.prems have "j < length xs" "xs ! j \<noteq> x" "distinct xs" by auto
    with Cons.IH [of j] Suc show ?thesis by (simp add: Let_def)
  qed
qed

lemma nextActorMessage_Some:
  assumes "i < length conv" "sender (conv ! i) = ''me''" "c \<le> int i"
    and "\<forall>j<i. c \<le> int j \<longrightarrow> sender (conv ! j) \<noteq> ''me''"
  shows "nextActorMessage conv c = Some (conv ! i)"
proof -
  let ?P = "\<lambda>(index, msg). sender msg = ''me'' \<and> int index \<ge> c"
  have "find ?P (enumerate 0 conv) = Some (i, conv ! i)"
    unfolding find_Some_iff
    using assms by (intro exI [of _ i]) (auto simp: nth_enumerate_eq)
  then show ?thesis by (simp add: nextActorMessage_def)
qed

lemma nextActorMessage_None:
  assumes "\<forall>j<length conv. c \<le> int j \<longrightarrow> sender (conv ! j) \<noteq> ''me''"
  shows "nextActorMessage conv c = None"
proof -
  let ?P = "\<lambda>(index, msg). sender msg = ''me'' \<and> int index \<ge> c"
  have "find ?P (enumerate 0 conv) = None"
    unfolding find_None_iff
    using assms by (auto simp: in_set_conv_nth nth_enumerate_eq)
  then show ?thesis by (simp add: nextActorMessage_def)
qed

text \<open>
  C10. \<open>handleActorSend\<close> on a conversation of messages with pairwise different
  identifiers: if \<open>i\<close> is the first index at or after the cursor whose message is sent by
  \<open>me\<close>, a submission equal to that message's text appends the message to the transcript
  and moves the cursor to \<open>i + 1\<close>, and any other submission changes nothing; if there is
  no such index, every submission changes nothing.
\<close>

theorem handleActorSend_matches_next_actor_line:
  assumes d: "distinct (map msg_id (conversation s))"
  shows "(\<forall>i. i < length (conversation s) \<and> sender (conversation s ! i) = ''me''
              \<and> currentScriptIndex s \<le> int i
              \<and> (\<forall>j<i. currentScriptIndex s \<le> int j \<longrightarrow> sender (conversation s ! j) \<noteq> ''me'')
            \<longrightarrow> handleActorSend t s =
                  (if t = msg_text (conversation s ! i)
                   then s\<lparr>messages := messages s @ [(conversation s ! i, clock (browser s))],
                          currentScriptIndex := int i + 1\<rparr>
                   else s))
         \<and> ((\<forall>j<length (conversation s). currentScriptIndex s \<le> int j \<longrightarrow> sender (conversation s ! j) \<noteq> ''me'')
            \<longrightarrow> handleActorSend t s = s)"
proof (intro conjI allI impI)
  fix i
  assume a: "i < length (conversation s) \<and> sender (conversation s ! i) = ''me''
              \<and> currentScriptIndex s \<le> int i
              \<and> (\<forall>j<i. currentScriptIndex s \<le> int j \<longrightarrow> sender (conversation s ! j) \<noteq> ''me'')"
  then have n: "nextActorMessage (conversation s) (currentScriptIndex s) = Some (conversation s ! i)"
    by (intro nextActorMessage_Some) auto
  from d have "distinct (conversation s)" by (simp add: distinct_map)
  with a have "indexOf (conversation s) (conversation s ! i) = int i" by (intro indexOf_nth) auto
  with n show "handleActorSend t s =
                  (if t = msg_text (conversation s ! i)
                   then s\<lparr>messages := messages s @ [(conversation s ! i, clock (browser s))],
                          currentScriptIndex := int i + 1\<rparr>
                   else s)"
    by (simp add: handleActorSend_def)
next
  assume "\<forall>j<length (conversation s). currentScriptIndex s \<le> int j \<longrightarrow> sender (conversation s ! j) \<noteq> ''me''"
  then have "nextActorMessage (conversation s) (currentScriptIndex s) = None"
    by (rule nextActorMessage_None)
  then show "handleActorSend t s = s" by (simp add: handleActorSend_def)
qed

theorem handleActorSend_matches_next_actor_line_witness:
  "handleActorSend ''ok''
     \<lparr>messages = [], isTyping = False, currentScriptIndex = 0, timeouts = [],
      conversation = [\<lparr>msg_id = ''a'', sender = ''c1'', msg_text = ''hi'', delay = 1\<rparr>,
                      \<lparr>msg_id = ''b'', sender = ''me'', msg_text = ''ok'', delay = 1\<rparr>],
      lsettings = \<lparr>timingMode = ''manual'', initialDelay = 0, writingMode = ''prop''\<rparr>,
      typingInput = None, mounted = True, browser = host_init, draws = 0\<rparr>
   = \<lparr>messages = [(\<lparr>msg_id = ''b'', sender = ''me'', msg_text = ''ok'', delay = 1\<rparr>, 0)],
      isTyping = False, currentScriptIndex = 2, timeouts = [],
      conversation = [\<lparr>msg_id = ''a'', sender = ''c1'', msg_text = ''hi'', delay = 1\<rparr>,
                      \<lparr>msg_id = ''b'', sender = ''me'', msg_text = ''ok'', delay = 1\<rparr>],
      lsettings = \<lparr>timingMode = ''manual'', initialDelay = 0, writingMode = ''prop''\<rparr>,
      typingInput = None, mounted = True, browser = host_init, draws = 0\<rparr>"
proof -
  let ?s = "\<lparr>messages = [], isTyping = False, currentScriptIndex = 0, timeouts = [],
      conversation = [\<lparr>msg_id = ''a'', sender = ''c1'', msg_text = ''hi'', delay = 1\<rparr>,
                      \<lparr>msg_id = ''b'', sender = ''me'', msg_text = ''ok'', delay = 1\<rparr>],
      lsettings = \<lparr>timingMode = ''manual'', initialDelay = 0, writingMode = ''prop''\<rparr>,
      typingInput = None, mounted = True, browser = (host_init :: live_cb host), draws = 0\<rparr>"
  have d: "distinct (map msg_id (conversation ?s))" by simp
  have h: "(1::nat) < length (conversation ?s) \<and> sender (conversation ?s ! 1) = ''me''
              \<and> currentScriptIndex ?s \<le> int 1
              \<and> (\<forall>j<1. currentScriptIndex ?s \<le> int j \<longrightarrow> sender (conversation ?s ! j) \<noteq> ''me'')"
    by simp
  from handleActorSend_matches_next_actor_line [OF d, of "''ok''"] h
  have "handleActorSend ''ok'' ?s =
                  (if ''ok'' = msg_text (conversation ?s ! 1)
                   then ?s\<lparr>messages := messages ?s @ [(conversation ?s ! 1, clock (browser ?s))],
                          currentScriptIndex := int 1 + 1\<rparr>
                   else ?s)"
    by blast
  then show ?thesis by (simp add: host_init_def)
qed

text \<open>
  C1. The claim fails in \<open>LiveScreen\<close>: the effect starts a delivery timer for every line,
  the actor's lines too, and \<open>handleActorSend\<close> appends the actor's line again. With the
  one-line script of the actor line \<open>hi\<close>, the timer delivers the line, and typing it
  delivers it a second time: the identifier \<open>m1\<close> is in the transcript twice. (\<open>LiveChat\<close>
  delivers the lines once each and in order: \<open>LiveChat_delivers_a_prefix_in_order\<close> below.)
\<close>

theorem LiveScreen_delivers_actor_line_twice:
  "map (msg_id \<circ> fst)
     (messages (LiveScreen_run zero_draws [Tick, KeyDown ''h'', KeyDown ''i'', KeyDown ''Enter'']
        (LiveScreen_mount zero_draws
           [\<lparr>msg_id = ''m1'', sender = ''me'', msg_text = ''hi'', delay = 0\<rparr>]
           \<lparr>timingMode = ''manual'', initialDelay = 0, writingMode = ''prop''\<rparr>)))
   = [''m1'', ''m1'']"
  by (simp add: LiveScreen_run_def LiveScreen_mount_def LiveScreen_step_def LiveScreen_effect_def
     clear_timeouts_def forEach_body_def setTimeout_def host_init_def render_input_def nextActorMessage_def
     LiveScreen_tick_def take_timer_def run_callback_def LiveScreen_keyDown_def ForcedTypingInput_handleKeyDown_def
     ForcedTypingInput_init_def substring0_def handleActorSend_def enumerate_eq_zip Let_def)

lemma LiveChat_starts_no_timer_for_actor_line: "isActorTurn s \<Longrightarrow> processNextMessage s = s"
  by (simp add: processNextMessage_def)

text \<open>
  C4. \<open>LiveChat\<close> starts no timer on an actor's line (the lemma above). The claim fails in
  \<open>LiveScreen\<close>, by the same timer as in C1: while the input waits for the
  actor to type the first line \<open>hi\<close> and no key has been pressed, the passage of time
  delivers that line, and then the actor's later line \<open>yo\<close>.
\<close>

theorem LiveScreen_timer_delivers_actor_lines:
  "typingInput (LiveScreen_mount zero_draws
           [\<lparr>msg_id = ''m1'', sender = ''me'', msg_text = ''hi'', delay = 2\<rparr>,
            \<lparr>msg_id = ''m2'', sender = ''me'', msg_text = ''yo'', delay = 2\<rparr>]
           \<lparr>timingMode = ''manual'', initialDelay = 3, writingMode = ''prop''\<rparr>)
     = Some ForcedTypingInput_init
   \<and> messages (LiveScreen_run zero_draws [Tick, Tick]
        (LiveScreen_mount zero_draws
           [\<lparr>msg_id = ''m1'', sender = ''me'', msg_text = ''hi'', delay = 2\<rparr>,
            \<lparr>msg_id = ''m2'', sender = ''me'', msg_text = ''yo'', delay = 2\<rparr>]
           \<lparr>timingMode = ''manual'', initialDelay = 3, writingMode = ''prop''\<rparr>))
     = [(\<lparr>msg_id = ''m1'', sender = ''me'', msg_text = ''hi'', delay = 2\<rparr>, 3000),
        (\<lparr>msg_id = ''m2'', sender = ''me'', msg_text = ''yo'', delay = 2\<rparr>, 5000)]"
  by (simp add: LiveScreen_run_def LiveScreen_mount_def LiveScreen_step_def LiveScreen_effect_def
     clear_timeouts_def forEach_body_def setTimeout_def host_init_def render_input_def nextActorMessage_def
     LiveScreen_tick_def take_timer_def run_callback_def ForcedTypingInput_init_def enumerate_eq_zip Let_def)

section \<open>The timers of \<open>LiveScreen\<close>\<close>

lemma fold_clearTimeout:
  "pending (fold clearTimeout ids h) = filter (\<lambda>t. timer_id t \<notin> set ids) (pending h)"
  by (induction ids arbitrary: h) (auto simp: clearTimeout_def intro: filter_cong)

lemma fold_clearTimeout_clock [simp]: "clock (fold clearTimeout ids h) = clock h"
  by (induction ids arbitrary: h) (auto simp: clearTimeout_def)

lemma fold_clearTimeout_next [simp]: "next_timer (fold clearTimeout ids h) = next_timer h"
  by (induction ids arbitrary: h) (auto simp: clearTimeout_def)

lemma clear_tracked:
  "timers_tracked s \<Longrightarrow> pending (browser (clear_timeouts s)) = []"
  by (auto simp: timers_tracked_def clear_timeouts_def fold_clearTimeout filter_empty_conv)

text \<open>One round of the loop, with the two calls of \<open>setTimeout\<close> written out.\<close>

lemma forEach_body_round:
  "forEach_body rnd (c, s) m =
    (let natural = (timingMode (lsettings s) = ''natural'');
         contact = (sender m \<noteq> ''me'');
         k0 = (if natural then draws s + 1 else draws s);
         messageDelay = (if natural then real (length (msg_text m)) * 50 + rnd (draws s) * 500 else delay m * 1000);
         c1 = (if contact then c + (1000 + rnd k0 * 1000) else c);
         n = next_timer (browser s);
         new = (if contact then [\<lparr>timer_id = n, due = clock (browser s) + max 0 c, callback = TypingTimeout\<rparr>,
                               \<lparr>timer_id = n + 1, due = clock (browser s) + max 0 c1, callback = MessageTimeout m\<rparr>]
                else [\<lparr>timer_id = n, due = clock (browser s) + max 0 c1, callback = MessageTimeout m\<rparr>])
     in (c1 + messageDelay,
         s\<lparr>draws := (if contact then k0 + 1 else k0),
           browser := (browser s)\<lparr>next_timer := n + length new, pending := pending (browser s) @ new\<rparr>,
           timeouts := timeouts s @ map timer_id new\<rparr>))"
  by (simp add: forEach_body_def setTimeout_def Let_def)

lemma forEach_body_fields:
  assumes "forEach_body rnd (c, s) m = (c', s')"
  shows "lsettings s' = lsettings s \<and> conversation s' = conversation s \<and> messages s' = messages s
    \<and> isTyping s' = isTyping s \<and> currentScriptIndex s' = currentScriptIndex s \<and> mounted s' = mounted s
    \<and> typingInput s' = typingInput s \<and> clock (browser s') = clock (browser s)"
  using assms unfolding forEach_body_round Let_def by (cases "sender m \<noteq> ''me''") auto

lemma forEach_body_tracked:
  assumes "forEach_body rnd (c, s) m = (c', s')"
    and "\<forall>t \<in> set (pending (browser s)). timer_id t \<in> set (timeouts s)"
  shows "\<forall>t \<in> set (pending (browser s')). timer_id t \<in> set (timeouts s')"
  using assms unfolding forEach_body_round Let_def by (cases "sender m \<noteq> ''me''") auto

lemma forEach_body_new:
  assumes "forEach_body rnd (c, s) m = (c', s')"
    and "\<forall>t \<in> set (pending (browser s)). n \<le> timer_id t" "n \<le> next_timer (browser s)"
  shows "(\<forall>t \<in> set (pending (browser s')). n \<le> timer_id t) \<and> n \<le> next_timer (browser s')"
  using assms unfolding forEach_body_round Let_def by (cases "sender m \<noteq> ''me''") auto

lemma forEach_body_view:
  assumes "forEach_body rnd (c, s) m = (c', s')"
  shows "timers_view (browser s') @ schedule_of rnd (lsettings s') c' (draws s') ms
         = timers_view (browser s) @ schedule_of rnd (lsettings s) c (draws s) (m # ms)"
  using assms unfolding forEach_body_round Let_def
  by (cases "sender m \<noteq> ''me''"; cases "timingMode (lsettings s) = ''natural''")
     (auto simp: timers_view_def Let_def)


lemma foldl_forEach_fields:
  "lsettings (snd (foldl (forEach_body rnd) acc ms)) = lsettings (snd acc)
   \<and> conversation (snd (foldl (forEach_body rnd) acc ms)) = conversation (snd acc)
   \<and> messages (snd (foldl (forEach_body rnd) acc ms)) = messages (snd acc)
   \<and> isTyping (snd (foldl (forEach_body rnd) acc ms)) = isTyping (snd acc)
   \<and> currentScriptIndex (snd (foldl (forEach_body rnd) acc ms)) = currentScriptIndex (snd acc)
   \<and> mounted (snd (foldl (forEach_body rnd) acc ms)) = mounted (snd acc)
   \<and> typingInput (snd (foldl (forEach_body rnd) acc ms)) = typingInput (snd acc)
   \<and> clock (browser (snd (foldl (forEach_body rnd) acc ms))) = clock (browser (snd acc))"
proof (induction ms arbitrary: acc)
  case Nil
  show ?case by simp
next
  case (Cons m ms)
  obtain c s where acc: "acc = (c, s)" by (cases acc)
  obtain c1 s1 where f: "forEach_body rnd (c, s) m = (c1, s1)"
    by (cases "forEach_body rnd (c, s) m")
  show ?case using Cons.IH [of "(c1, s1)"] forEach_body_fields [OF f] by (simp add: acc f)
qed

lemma foldl_forEach_view:
  "timers_view (browser (snd (foldl (forEach_body rnd) (c, s) ms)))
   = timers_view (browser s) @ schedule_of rnd (lsettings s) c (draws s) ms"
proof (induction ms arbitrary: c s)
  case Nil
  show ?case by simp
next
  case (Cons m ms)
  obtain c1 s1 where f: "forEach_body rnd (c, s) m = (c1, s1)"
    by (cases "forEach_body rnd (c, s) m")
  have "timers_view (browser (snd (foldl (forEach_body rnd) (c, s) (m # ms))))
      = timers_view (browser s1) @ schedule_of rnd (lsettings s1) c1 (draws s1) ms"
    using Cons.IH [of c1 s1] by (simp only: foldl_Cons f)
  also have "\<dots> = timers_view (browser s) @ schedule_of rnd (lsettings s) c (draws s) (m # ms)"
    by (rule forEach_body_view [OF f])
  finally show ?case .
qed

lemma foldl_forEach_tracked:
  "\<forall>t \<in> set (pending (browser (snd acc))). timer_id t \<in> set (timeouts (snd acc)) \<Longrightarrow>
   \<forall>t \<in> set (pending (browser (snd (foldl (forEach_body rnd) acc ms)))).
      timer_id t \<in> set (timeouts (snd (foldl (forEach_body rnd) acc ms)))"
proof (induction ms arbitrary: acc)
  case Nil
  then show ?case by simp
next
  case (Cons m ms)
  obtain c s where acc: "acc = (c, s)" by (cases acc)
  obtain c1 s1 where f: "forEach_body rnd (c, s) m = (c1, s1)"
    by (cases "forEach_body rnd (c, s) m")
  have "\<forall>t \<in> set (pending (browser s1)). timer_id t \<in> set (timeouts s1)"
    using forEach_body_tracked [OF f] Cons.prems unfolding acc snd_conv by blast
  then show ?case using Cons.IH [of "(c1, s1)"] by (simp add: acc f)
qed

lemma foldl_forEach_new:
  "(\<forall>t \<in> set (pending (browser (snd acc))). n \<le> timer_id t) \<and> n \<le> next_timer (browser (snd acc)) \<Longrightarrow>
   (\<forall>t \<in> set (pending (browser (snd (foldl (forEach_body rnd) acc ms)))). n \<le> timer_id t)
   \<and> n \<le> next_timer (browser (snd (foldl (forEach_body rnd) acc ms)))"
proof (induction ms arbitrary: acc)
  case Nil
  then show ?case by simp
next
  case (Cons m ms)
  obtain c s where acc: "acc = (c, s)" by (cases acc)
  obtain c1 s1 where f: "forEach_body rnd (c, s) m = (c1, s1)"
    by (cases "forEach_body rnd (c, s) m")
  have "(\<forall>t \<in> set (pending (browser s1)). n \<le> timer_id t) \<and> n \<le> next_timer (browser s1)"
    using forEach_body_new [OF f, of n] Cons.prems unfolding acc snd_conv by blast
  then show ?case using Cons.IH [of "(c1, s1)"] by (simp add: acc f)
qed

lemma timers_view_Nil: "pending h = [] \<Longrightarrow> timers_view h = []"
  by (simp add: timers_view_def)

lemma render_input_fields [simp]:
  "messages (render_input s) = messages s" "isTyping (render_input s) = isTyping s"
  "currentScriptIndex (render_input s) = currentScriptIndex s" "browser (render_input s) = browser s"
  "timeouts (render_input s) = timeouts s" "mounted (render_input s) = mounted s"
  "conversation (render_input s) = conversation s" "lsettings (render_input s) = lsettings s"
  "draws (render_input s) = draws s"
  by (simp_all add: render_input_def split: option.splits)

lemma render_input_unmounted: "\<not> mounted s \<Longrightarrow> typingInput (render_input s) = None"
  by (simp add: render_input_def)

lemma effect_fields:
  "messages (LiveScreen_effect rnd s) = [] \<and> isTyping (LiveScreen_effect rnd s) = False
   \<and> currentScriptIndex (LiveScreen_effect rnd s) = 0
   \<and> conversation (LiveScreen_effect rnd s) = conversation s
   \<and> lsettings (LiveScreen_effect rnd s) = lsettings s
   \<and> mounted (LiveScreen_effect rnd s) = mounted s
   \<and> typingInput (LiveScreen_effect rnd s) = typingInput s
   \<and> clock (browser (LiveScreen_effect rnd s)) = clock (browser s)"
  unfolding LiveScreen_effect_def Let_def
  using foldl_forEach_fields [of rnd "(initialDelay (lsettings s) * 1000,
      (clear_timeouts s)\<lparr>timeouts := [], messages := [], isTyping := False, currentScriptIndex := 0\<rparr>)" "conversation s"]
  by (simp add: clear_timeouts_def)

lemma effect_view:
  assumes "timers_tracked s"
  shows "timers_view (browser (LiveScreen_effect rnd s))
         = schedule_of rnd (lsettings s) (initialDelay (lsettings s) * 1000) (draws s) (conversation s)"
proof -
  have "pending (browser (clear_timeouts s)) = []" by (rule clear_tracked [OF assms])
  then have "timers_view (browser (clear_timeouts s)) = []" by (rule timers_view_Nil)
  then show ?thesis
    unfolding LiveScreen_effect_def Let_def
    by (simp add: foldl_forEach_view) (simp add: clear_timeouts_def)
qed

lemma effect_tracked:
  assumes "timers_tracked s"
  shows "\<forall>t \<in> set (pending (browser (LiveScreen_effect rnd s))). timer_id t \<in> set (timeouts (LiveScreen_effect rnd s))"
proof -
  have e: "pending (browser (clear_timeouts s)) = []" by (rule clear_tracked [OF assms])
  let ?s1 = "(clear_timeouts s)\<lparr>timeouts := [], messages := [], isTyping := False, currentScriptIndex := 0\<rparr>"
  have "\<forall>t \<in> set (pending (browser (snd (initialDelay (lsettings ?s1) * 1000, ?s1)))).
          timer_id t \<in> set (timeouts (snd (initialDelay (lsettings ?s1) * 1000, ?s1)))"
    using e by simp
  from foldl_forEach_tracked [OF this, of rnd "conversation ?s1"]
  show ?thesis unfolding LiveScreen_effect_def Let_def by simp
qed

lemma effect_new:
  assumes "timers_tracked s"
  shows "\<forall>t \<in> set (pending (browser (LiveScreen_effect rnd s))). next_timer (browser s) \<le> timer_id t"
proof -
  have e: "pending (browser (clear_timeouts s)) = []" by (rule clear_tracked [OF assms])
  let ?s1 = "(clear_timeouts s)\<lparr>timeouts := [], messages := [], isTyping := False, currentScriptIndex := 0\<rparr>"
  have "(\<forall>t \<in> set (pending (browser (snd (initialDelay (lsettings ?s1) * 1000, ?s1)))). next_timer (browser s) \<le> timer_id t)
        \<and> next_timer (browser s) \<le> next_timer (browser (snd (initialDelay (lsettings ?s1) * 1000, ?s1)))"
    using e by (simp add: clear_timeouts_def)
  from foldl_forEach_new [OF this, of rnd "conversation ?s1"]
  show ?thesis unfolding LiveScreen_effect_def Let_def by simp
qed

lemma effect_keeps_tracked:
  assumes "timers_tracked s" "mounted s"
  shows "timers_tracked (LiveScreen_effect rnd s)"
  using effect_tracked [OF assms(1), of rnd] effect_fields [of rnd s] assms(2)
  by (simp add: timers_tracked_def)

lemma mount_tracked: "timers_tracked (LiveScreen_mount rnd conv st)"
proof -
  let ?i = "\<lparr>messages = [], isTyping = False, currentScriptIndex = 0, timeouts = [],
        conversation = conv, lsettings = st, typingInput = None, mounted = True,
        browser = host_init, draws = 0\<rparr>"
  have "timers_tracked ?i" by (simp add: timers_tracked_def host_init_def)
  then have "timers_tracked (LiveScreen_effect rnd ?i)" by (rule effect_keeps_tracked) simp
  then show ?thesis using effect_fields [of rnd ?i]
    by (simp add: LiveScreen_mount_def timers_tracked_def)
qed

lemma earliest_mem: "earliest ps = Some t \<Longrightarrow> t \<in> set ps"
  by (induction ps arbitrary: t) (auto split: option.splits if_splits)

lemma earliest_None: "earliest ps = None \<longleftrightarrow> ps = []"
  by (cases ps) (auto split: option.splits)

lemma tick_tracked:
  assumes "timers_tracked s"
  shows "timers_tracked (render_input (LiveScreen_tick s))"
proof (cases "earliest (pending (browser s))")
  case None
  then have "LiveScreen_tick s = s" by (simp add: LiveScreen_tick_def)
  with assms show ?thesis by (auto simp: timers_tracked_def render_input_unmounted)
next
  case (Some t)
  then have ne: "pending (browser s) \<noteq> []" by (auto simp: earliest_None [symmetric])
  with assms have m: "mounted s" by (auto simp: timers_tracked_def)
  have "LiveScreen_tick s = run_callback (callback t) (s\<lparr>browser := take_timer t (browser s)\<rparr>)"
    using Some m by (simp add: LiveScreen_tick_def Let_def)
  then show ?thesis using assms m
    by (auto simp: timers_tracked_def run_callback_def take_timer_def split: live_cb.splits)
qed

lemma keyDown_fields:
  "browser (LiveScreen_keyDown key s) = browser s \<and> timeouts (LiveScreen_keyDown key s) = timeouts s
   \<and> mounted (LiveScreen_keyDown key s) = mounted s"
  by (auto simp: LiveScreen_keyDown_def handleActorSend_def Let_def split: option.splits prod.splits)

lemma step_tracked:
  assumes "timers_tracked s"
  shows "timers_tracked (LiveScreen_step rnd e s)"
proof (cases e)
  case Tick
  then show ?thesis using tick_tracked [OF assms] by (simp add: LiveScreen_step_def)
next
  case (Idle d)
  then show ?thesis using assms by (simp add: LiveScreen_step_def timers_tracked_def idle_def)
next
  case (KeyDown key)
  then show ?thesis using assms keyDown_fields [of key s]
    by (auto simp: LiveScreen_step_def timers_tracked_def render_input_unmounted)
next
  case (Rerender conv st)
  show ?thesis
  proof (cases "mounted s")
    case False
    with Rerender assms show ?thesis by (simp add: LiveScreen_step_def)
  next
    case True
    let ?c = "(clear_timeouts s)\<lparr>conversation := conv, lsettings := st\<rparr>"
    have e: "pending (browser (clear_timeouts s)) = []" by (rule clear_tracked [OF assms])
    have tc: "timers_tracked ?c" using e True by (simp add: timers_tracked_def clear_timeouts_def)
    have mc: "mounted ?c" using True by (simp add: clear_timeouts_def)
    have "timers_tracked (LiveScreen_effect rnd ?c)" by (rule effect_keeps_tracked [OF tc mc])
    moreover have "mounted (LiveScreen_effect rnd ?c)" using effect_fields [of rnd ?c] mc by simp
    ultimately have "timers_tracked (render_input (LiveScreen_effect rnd ?c))"
      by (simp add: timers_tracked_def)
    with True Rerender show ?thesis by (simp add: LiveScreen_step_def)
  qed
next
  case Unmount
  show ?thesis
  proof (cases "mounted s")
    case False
    with Unmount assms show ?thesis by (simp add: LiveScreen_step_def)
  next
    case True
    have e: "pending (browser (clear_timeouts s)) = []" by (rule clear_tracked [OF assms])
    with True Unmount show ?thesis by (simp add: LiveScreen_step_def timers_tracked_def)
  qed
qed

lemma run_tracked: "timers_tracked s \<Longrightarrow> timers_tracked (LiveScreen_run rnd es s)"
  unfolding LiveScreen_run_def by (induction es arbitrary: s) (auto intro: step_tracked)

section \<open>The timers of \<open>LiveChatMode\<close>\<close>

lemma mode_effect_inv:
  assumes "pending (modeBrowser s) = []" "\<not> waitingForInput s" "0 \<le> currentMessageIndex s"
  shows "mode_inv (LiveChatMode_effect s)"
  using assms
  by (auto simp: mode_inv_def LiveChatMode_effect_def isComplete_chat_def currentMessage_def setTimeout_def
      split: option.splits)

lemma mode_mount_inv: "mode_inv (LiveChatMode_mount p)"
  unfolding LiveChatMode_mount_def by (rule mode_effect_inv) (simp_all add: host_init_def)

lemma earliest_single: "length ps \<le> 1 \<Longrightarrow> earliest ps = Some t \<Longrightarrow> ps = [t]"
  by (cases ps) (auto split: option.splits)

lemma mode_tick_inv:
  assumes "mode_inv s"
  shows "mode_inv (LiveChatMode_tick s)"
proof (cases "earliest (pending (modeBrowser s))")
  case None
  with assms show ?thesis by (simp add: LiveChatMode_tick_def)
next
  case (Some t)
  from assms have le: "length (pending (modeBrowser s)) \<le> 1" by (simp add: mode_inv_def)
  have ps: "pending (modeBrowser s) = [t]" by (rule earliest_single [OF le Some])
  with assms have nw: "\<not> waitingForInput s" and nc: "\<not> isComplete_chat s" and i0: "0 \<le> currentMessageIndex s"
    by (auto simp: mode_inv_def)
  let ?s1 = "s\<lparr>modeBrowser := take_timer t (modeBrowser s)\<rparr>"
  have e1: "pending (modeBrowser ?s1) = []" using ps by (simp add: take_timer_def)
  show ?thesis
  proof (cases "callback t")
    case (DeliverTimeout m)
    then have "LiveChatMode_tick s =
       (if modeMounted s
        then ?s1\<lparr>modeTyping := False, chatMessages := chatMessages ?s1 @ [(m, clock (modeBrowser ?s1))],
                 modeBrowser := snd (setTimeout AdvanceTimeout 500 (modeBrowser ?s1))\<rparr>
        else ?s1\<lparr>modeBrowser := snd (setTimeout AdvanceTimeout 500 (modeBrowser ?s1))\<rparr>)"
      using Some by (simp add: LiveChatMode_tick_def Let_def)
    then show ?thesis using e1 nw nc i0
      by (simp add: mode_inv_def setTimeout_def isComplete_chat_def)
  next
    case AdvanceTimeout
    show ?thesis
    proof (cases "modeMounted s")
      case True
      then have "LiveChatMode_tick s = LiveChatMode_effect (?s1\<lparr>currentMessageIndex := currentMessageIndex ?s1 + 1\<rparr>)"
        using Some AdvanceTimeout by (simp add: LiveChatMode_tick_def Let_def)
      moreover have "mode_inv (LiveChatMode_effect (?s1\<lparr>currentMessageIndex := currentMessageIndex ?s1 + 1\<rparr>))"
        using e1 nw i0 by (intro mode_effect_inv) simp_all
      ultimately show ?thesis by simp
    next
      case False
      then have "LiveChatMode_tick s = ?s1"
        using Some AdvanceTimeout by (simp add: LiveChatMode_tick_def Let_def)
      then show ?thesis using e1 nw i0 by (simp add: mode_inv_def isComplete_chat_def)
    qed
  qed
qed

lemma mode_keyDown_inv:
  assumes "mode_inv s"
  shows "mode_inv (LiveChatMode_keyDown key s)"
proof (cases "modeMounted s \<and> waitingForInput s \<and> \<not> isComplete_chat s")
  case False
  with assms show ?thesis by (auto simp: LiveChatMode_keyDown_def)
next
  case True
  with assms have e: "pending (modeBrowser s) = []" and i0: "0 \<le> currentMessageIndex s"
    by (auto simp: mode_inv_def)
  obtain h' out where h: "handleKeyDown_pattern (case currentMessage s of None \<Rightarrow> '''' | Some m \<Rightarrow> msg_text m) key (hook s) = (h', out)"
    by (cases "handleKeyDown_pattern (case currentMessage s of None \<Rightarrow> '''' | Some m \<Rightarrow> msg_text m) key (hook s)")
  show ?thesis
  proof (cases out)
    case None
    with h True have "LiveChatMode_keyDown key s = s\<lparr>hook := h'\<rparr>"
      by (simp add: LiveChatMode_keyDown_def)
    with assms show ?thesis by (simp add: mode_inv_def isComplete_chat_def)
  next
    case (Some t)
    with h True have "LiveChatMode_keyDown key s = onComplete t (s\<lparr>hook := h'\<rparr>)"
      by (simp add: LiveChatMode_keyDown_def)
    moreover have "mode_inv (onComplete t (s\<lparr>hook := h'\<rparr>))"
      using True e i0
      by (auto simp: onComplete_def mode_inv_def isComplete_chat_def currentMessage_def setTimeout_def
          split: option.splits)
    ultimately show ?thesis by simp
  qed
qed

lemma mode_step_inv: "mode_inv s \<Longrightarrow> mode_inv (LiveChatMode_step e s)"
proof (cases e)
  case ModeTick
  assume "mode_inv s"
  then show ?thesis using ModeTick by (simp add: LiveChatMode_step_def mode_tick_inv)
next
  case (ModeIdle d)
  assume "mode_inv s"
  then show ?thesis using ModeIdle
    by (simp add: LiveChatMode_step_def mode_inv_def idle_def isComplete_chat_def)
next
  case (ModeKeyDown k)
  assume "mode_inv s"
  then show ?thesis using ModeKeyDown by (simp add: LiveChatMode_step_def mode_keyDown_inv)
next
  case Restart
  assume a: "mode_inv s"
  show ?thesis
  proof (cases "modeMounted s \<and> isComplete_chat s")
    case True
    with a have "pending (modeBrowser s) = []" by (simp add: mode_inv_def)
    then have "mode_inv (LiveChatMode_effect (handleRestart s))"
      by (intro mode_effect_inv) (simp_all add: handleRestart_def)
    with True Restart show ?thesis by (simp add: LiveChatMode_step_def)
  next
    case False
    with a Restart show ?thesis by (auto simp: LiveChatMode_step_def)
  qed
next
  case Exit
  assume "mode_inv s"
  then show ?thesis using Exit by (simp add: LiveChatMode_step_def mode_inv_def isComplete_chat_def)
qed

lemma mode_run_inv: "mode_inv s \<Longrightarrow> mode_inv (LiveChatMode_run es s)"
  unfolding LiveChatMode_run_def by (induction es arbitrary: s) (auto intro: mode_step_inv)

lemma mode_effect_view:
  assumes "pending (modeBrowser s) = []" "pending (modeBrowser s') = []"
    "modeProject s = modeProject s'" "currentMessageIndex s = currentMessageIndex s'"
    "chatMessages s = chatMessages s'" "modeTyping s = modeTyping s'" "waitingForInput s = waitingForInput s'"
    "hook s = hook s'"
  shows "mode_view (LiveChatMode_effect s) = mode_view (LiveChatMode_effect s')"
  using assms
  by (auto simp: mode_view_def LiveChatMode_effect_def currentMessage_def timers_view_def setTimeout_def
      split: option.splits)

section \<open>Unmounting, re-rendering and restarting\<close>

lemma unmounted_step:
  assumes "\<not> mounted s" "pending (browser s) = []" "typingInput s = None"
  shows "\<exists>c. LiveScreen_step rnd e s = s\<lparr>browser := (browser s)\<lparr>clock := c\<rparr>\<rparr>"
proof (cases e)
  case Tick
  have "LiveScreen_step rnd e s = s" using assms Tick
    by (cases s) (simp add: LiveScreen_step_def LiveScreen_tick_def render_input_def)
  then have "LiveScreen_step rnd e s = s\<lparr>browser := (browser s)\<lparr>clock := clock (browser s)\<rparr>\<rparr>" by simp
  then show ?thesis ..
next
  case (Idle d)
  have "LiveScreen_step rnd e s = s\<lparr>browser := (browser s)\<lparr>clock := clock (browser s) + max 0 d\<rparr>\<rparr>"
    using assms Idle by (simp add: LiveScreen_step_def idle_def)
  then show ?thesis ..
next
  case (KeyDown key)
  have "LiveScreen_step rnd e s = s" using assms KeyDown
    by (cases s) (simp add: LiveScreen_step_def LiveScreen_keyDown_def render_input_def)
  then have "LiveScreen_step rnd e s = s\<lparr>browser := (browser s)\<lparr>clock := clock (browser s)\<rparr>\<rparr>" by simp
  then show ?thesis ..
next
  case (Rerender conv st)
  have "LiveScreen_step rnd e s = s" using assms Rerender by (simp add: LiveScreen_step_def)
  then have "LiveScreen_step rnd e s = s\<lparr>browser := (browser s)\<lparr>clock := clock (browser s)\<rparr>\<rparr>" by simp
  then show ?thesis ..
next
  case Unmount
  have "LiveScreen_step rnd e s = s" using assms Unmount by (simp add: LiveScreen_step_def)
  then have "LiveScreen_step rnd e s = s\<lparr>browser := (browser s)\<lparr>clock := clock (browser s)\<rparr>\<rparr>" by simp
  then show ?thesis ..
qed

lemma unmounted_run:
  assumes "\<not> mounted s" "pending (browser s) = []" "typingInput s = None"
  shows "\<exists>c. LiveScreen_run rnd es s = s\<lparr>browser := (browser s)\<lparr>clock := c\<rparr>\<rparr>"
  using assms
proof (induction es arbitrary: s)
  case Nil
  have "LiveScreen_run rnd [] s = s\<lparr>browser := (browser s)\<lparr>clock := clock (browser s)\<rparr>\<rparr>"
    by (simp add: LiveScreen_run_def)
  then show ?case ..
next
  case (Cons e es)
  obtain c where c: "LiveScreen_step rnd e s = s\<lparr>browser := (browser s)\<lparr>clock := c\<rparr>\<rparr>"
    using unmounted_step [OF Cons.prems] by blast
  let ?s1 = "s\<lparr>browser := (browser s)\<lparr>clock := c\<rparr>\<rparr>"
  have "\<exists>c'. LiveScreen_run rnd es ?s1 = ?s1\<lparr>browser := (browser ?s1)\<lparr>clock := c'\<rparr>\<rparr>"
    using Cons.prems by (intro Cons.IH) simp_all
  then obtain c' where "LiveScreen_run rnd es ?s1 = ?s1\<lparr>browser := (browser ?s1)\<lparr>clock := c'\<rparr>\<rparr>" ..
  then have "LiveScreen_run rnd (e # es) s = s\<lparr>browser := (browser s)\<lparr>clock := c'\<rparr>\<rparr>"
    using c by (simp add: LiveScreen_run_def)
  then show ?case ..
qed

lemma unmount_state:
  assumes "timers_tracked s"
  shows "\<not> mounted (LiveScreen_step rnd Unmount s) \<and> pending (browser (LiveScreen_step rnd Unmount s)) = []
     \<and> typingInput (LiveScreen_step rnd Unmount s) = None"
proof (cases "mounted s")
  case True
  then show ?thesis using clear_tracked [OF assms] by (simp add: LiveScreen_step_def)
next
  case False
  then show ?thesis using assms by (simp add: LiveScreen_step_def timers_tracked_def)
qed

lemma rerender_new:
  assumes "timers_tracked s"
  shows "\<forall>t \<in> set (pending (browser (LiveScreen_step rnd (Rerender conv st) s))). next_timer (browser s) \<le> timer_id t"
proof (cases "mounted s")
  case False
  with assms show ?thesis by (simp add: LiveScreen_step_def timers_tracked_def)
next
  case True
  let ?c = "(clear_timeouts s)\<lparr>conversation := conv, lsettings := st\<rparr>"
  have e: "pending (browser (clear_timeouts s)) = []" by (rule clear_tracked [OF assms])
  have tc: "timers_tracked ?c" using e True by (simp add: timers_tracked_def clear_timeouts_def)
  have "next_timer (browser ?c) = next_timer (browser s)" by (simp add: clear_timeouts_def)
  with effect_new [OF tc, of rnd] True show ?thesis by (simp add: LiveScreen_step_def)
qed

lemma mode_step_project [simp]: "modeProject (LiveChatMode_step e s) = modeProject s"
  by (cases e)
     (auto simp: LiveChatMode_step_def LiveChatMode_tick_def LiveChatMode_keyDown_def LiveChatMode_effect_def
        onComplete_def handleRestart_def Let_def split: option.splits mode_cb.splits prod.splits)

lemma mode_run_project [simp]: "modeProject (LiveChatMode_run es s) = modeProject s"
  unfolding LiveChatMode_run_def by (induction es arbitrary: s) auto

lemma mode_mount_project [simp]: "modeProject (LiveChatMode_mount p) = p"
  by (auto simp: LiveChatMode_mount_def LiveChatMode_effect_def split: option.splits)

lemma restart_view:
  assumes "mode_inv s" "isComplete_chat s" "modeProject s = p" "modeMounted s"
  shows "mode_view (LiveChatMode_step Restart s) = mode_view (LiveChatMode_mount p)"
proof -
  from assms have e: "pending (modeBrowser s) = []" by (simp add: mode_inv_def)
  have "mode_view (LiveChatMode_effect (handleRestart s))
      = mode_view (LiveChatMode_effect \<lparr>currentMessageIndex = 0, chatMessages = [], modeTyping = False, typingSender = '''',
        waitingForInput = False, hook = useForcedTyping_init, modeProject = p, modeMounted = True,
        modeBrowser = host_init\<rparr>)"
    using e assms(3)
    by (intro mode_effect_view) (simp_all add: handleRestart_def host_init_def reset_def useForcedTyping_init_def)
  with assms(2,4) show ?thesis by (simp add: LiveChatMode_step_def LiveChatMode_mount_def)
qed


lemma mount_view:
  "playback_view (LiveScreen_mount rnd conv st)
   = ([], False, 0, schedule_of rnd st (initialDelay st * 1000) 0 conv)"
proof -
  let ?i = "\<lparr>messages = [], isTyping = False, currentScriptIndex = 0, timeouts = [],
        conversation = conv, lsettings = st, typingInput = None, mounted = True,
        browser = host_init, draws = 0\<rparr>"
  have "timers_tracked ?i" by (simp add: timers_tracked_def host_init_def)
  from effect_view [OF this, of rnd] effect_fields [of rnd ?i]
  show ?thesis by (simp add: playback_view_def LiveScreen_mount_def)
qed


lemma schedule_of_manual_Cons:
  assumes "timingMode st \<noteq> ''natural''"
  shows "schedule_of rnd st c k (m # ms) =
     (if sender m \<noteq> ''me''
      then [(max 0 c, TypingTimeout), (max 0 (c + (1000 + rnd k * 1000)), MessageTimeout m)]
           @ schedule_of rnd st (c + (1000 + rnd k * 1000) + delay m * 1000) (k + 1) ms
      else [(max 0 c, MessageTimeout m)] @ schedule_of rnd st (c + delay m * 1000) k ms)"
  using assms by (simp add: Let_def)




lemma mount_timers: "timers_view (browser (LiveScreen_mount rnd conv st)) = schedule_of rnd st (initialDelay st * 1000) 0 conv"
  using mount_view [of rnd conv st] by (simp add: playback_view_def)


lemma LiveScreen_first_line:
  assumes "timingMode st \<noteq> ''natural''" "0 \<le> rnd 0" "0 \<le> initialDelay st"
  shows "\<exists>ys. timers_view (browser (LiveScreen_mount rnd (m # rest) st))
          = (if sender m \<noteq> ''me''
             then [(initialDelay st * 1000, TypingTimeout),
                   (initialDelay st * 1000 + (1000 + rnd 0 * 1000), MessageTimeout m)]
             else [(initialDelay st * 1000, MessageTimeout m)]) @ ys"
  unfolding mount_timers schedule_of_manual_Cons [OF assms(1)] using assms(2,3)
  by (cases "sender m \<noteq> ''me''") (simp_all add: max_def)

section \<open>The first line of \<open>LiveChat\<close>\<close>

lemma processNextMessage_displayed [simp]:
  "displayedMessages (processNextMessage s) = displayedMessages s"
  by (simp add: processNextMessage_def split: option.splits)

lemma render_forced_input_displayed [simp]:
  "displayedMessages (render_forced_input s) = displayedMessages s"
  by (simp add: render_forced_input_def split: option.splits)

lemma LiveChat_mount_autonomous:
  assumes "participantId m \<noteq> ''you''"
  shows "LiveChat_mount (m # rest) =
     \<lparr>displayedMessages = [], chatScriptIndex = 0, chatTyping = False, sceneMessages = m # rest,
      forcedInput = None,
      chatBrowser = \<lparr>clock = 0, next_timer = 2,
        pending = [\<lparr>timer_id = 1, due = max 0 (startDelayMs m), callback = ShowTyping m (typingSpeedMs m)\<rparr>]\<rparr>\<rparr>"
  using assms
  by (simp add: LiveChat_mount_def render_forced_input_def processNextMessage_def isActorTurn_def
      activeMessage_def setTimeout_def host_init_def)

lemma LiveChat_first_line:
  assumes "participantId m \<noteq> ''you''" "startDelay m = Seconds d" "d \<noteq> 0"
  shows "displayedMessages (LiveChat_run [ChatTick, ChatTick] (LiveChat_mount (m # rest)))
         = [(m, max 0 (d * 1000) + max 0 (real (length (sm_text m)) * typingSpeedMs m))]"
proof -
  have sd: "startDelayMs m = d * 1000" using assms(2,3) by (simp add: startDelayMs_def js_or_def)
  let ?t = "max 0 (d * 1000)"
  let ?s1 = "\<lparr>displayedMessages = [], chatScriptIndex = 0, chatTyping = True, sceneMessages = m # rest,
      forcedInput = None,
      chatBrowser = \<lparr>clock = ?t, next_timer = 3,
        pending = [\<lparr>timer_id = 2, due = ?t + max 0 (real (length (sm_text m)) * typingSpeedMs m),
                    callback = DeliverMessage m\<rparr>]\<rparr>\<rparr>"
  have 1: "LiveChat_tick (LiveChat_mount (m # rest)) = ?s1"
    unfolding LiveChat_mount_autonomous [OF assms(1)] sd
    by (simp add: LiveChat_tick_def take_timer_def setTimeout_def Let_def)
  have 2: "displayedMessages (LiveChat_tick ?s1)
      = [(m, ?t + max 0 (real (length (sm_text m)) * typingSpeedMs m))]"
    by (simp add: LiveChat_tick_def take_timer_def Let_def max_def)
  show ?thesis using 2 by (simp add: LiveChat_run_def LiveChat_step_def 1)
qed

section \<open>The claims about sessions\<close>


lemmas LiveChat_defs =
  LiveChat_run_def LiveChat_mount_def LiveChat_step_def LiveChat_tick_def LiveChat_send_def
  LiveChat_handleActorSend_def render_forced_input_def processNextMessage_def isActorTurn_def
  activeMessage_def startDelayMs_def typingSpeedMs_def js_or_def setTimeout_def take_timer_def
  host_init_def handleKeyDown_def useForcedTyping_init_def charAt_def slice_drop_last_def isComplete_def
  Let_def

lemmas LiveChatMode_defs =
  LiveChatMode_run_def LiveChatMode_mount_def LiveChatMode_step_def LiveChatMode_tick_def
  LiveChatMode_keyDown_def LiveChatMode_effect_def onComplete_def handleRestart_def currentMessage_def
  isUser_def isComplete_chat_def js_or_def setTimeout_def take_timer_def host_init_def reset_def
  useForcedTyping_init_def mode_view_def timers_view_def Let_def

lemma LiveScreen_cancels_its_timers:
  "pending (browser (LiveScreen_step rnd Unmount (LiveScreen_run rnd es (LiveScreen_mount rnd conv st)))) = []
   \<and> (\<exists>c. LiveScreen_run rnd es' (LiveScreen_step rnd Unmount (LiveScreen_run rnd es (LiveScreen_mount rnd conv st)))
          = (LiveScreen_step rnd Unmount (LiveScreen_run rnd es (LiveScreen_mount rnd conv st)))
              \<lparr>browser := (browser (LiveScreen_step rnd Unmount (LiveScreen_run rnd es (LiveScreen_mount rnd conv st))))
                            \<lparr>clock := c\<rparr>\<rparr>)
   \<and> (\<forall>t \<in> set (pending (browser (LiveScreen_step rnd (Rerender conv' st')
                                     (LiveScreen_run rnd es (LiveScreen_mount rnd conv st))))).
         next_timer (browser (LiveScreen_run rnd es (LiveScreen_mount rnd conv st))) \<le> timer_id t)"
proof -
  let ?s = "LiveScreen_run rnd es (LiveScreen_mount rnd conv st)"
  let ?u = "LiveScreen_step rnd Unmount ?s"
  have tr: "timers_tracked ?s" by (intro run_tracked mount_tracked)
  note u = unmount_state [OF tr, of rnd]
  have 1: "pending (browser ?u) = []" using u by simp
  have 2: "\<exists>c. LiveScreen_run rnd es' ?u = ?u\<lparr>browser := (browser ?u)\<lparr>clock := c\<rparr>\<rparr>"
    using u by (intro unmounted_run) simp_all
  have 3: "\<forall>t \<in> set (pending (browser (LiveScreen_step rnd (Rerender conv' st') ?s))).
         next_timer (browser ?s) \<le> timer_id t"
    by (rule rerender_new [OF tr])
  from 1 2 3 show ?thesis by blast
qed

lemma LiveChatMode_restart_is_a_fresh_start:
  assumes "modeMounted (LiveChatMode_run ms (LiveChatMode_mount p))"
    and "isComplete_chat (LiveChatMode_run ms (LiveChatMode_mount p))"
  shows "pending (modeBrowser (LiveChatMode_run ms (LiveChatMode_mount p))) = []
     \<and> mode_view (LiveChatMode_step Restart (LiveChatMode_run ms (LiveChatMode_mount p)))
         = mode_view (LiveChatMode_mount p)"
proof -
  let ?b = "LiveChatMode_run ms (LiveChatMode_mount p)"
  have inv: "mode_inv ?b" by (intro mode_run_inv mode_mount_inv)
  with assms(2) have "pending (modeBrowser ?b) = []" by (simp add: mode_inv_def)
  moreover have "mode_view (LiveChatMode_step Restart ?b) = mode_view (LiveChatMode_mount p)"
    by (rule restart_view [OF inv assms(2) _ assms(1)]) simp
  ultimately show ?thesis ..
qed

lemmas FlowProp_defs =
  FlowProp_run_def FlowProp_step_def FlowProp_tick_def FlowProp_keyDown_def FlowProp_open_def
  LiveModeView_rendered_def MainView_rendered_def handleGoLive_def startLiveMode_def slice_from_def
  LiveModeView_handleKeyDown_def substring0_def js_or_def setTimeout_def take_timer_def host_init_def
  zero_draws_def Let_def

text \<open>
  C3. The claim holds in \<open>LiveScreen\<close>, whose effect clears every timer it started
  (\<open>LiveScreen_cancels_its_timers\<close>), and for the restart of \<open>LiveChatMode\<close>, which is offered
  only when no timer is pending (\<open>LiveChatMode_restart_is_a_fresh_start\<close>). It fails for the
  exit of the two sessions of src/src/App.jsx that clear no timer.

  In \<open>FlowProp\<close> the script is the actor's line \<open>ok\<close> followed by the contact's line \<open>hi\<close>,
  with a custom delay of 2 seconds. The actor types and sends \<open>ok\<close>, which starts the timer
  of \<open>hi\<close>, and leaves the live view. The timer stays pending. When it fires, \<open>hi\<close> is added
  to the transcript of the session that was left. When the user has gone live again before
  it fires, \<open>hi\<close> is delivered into the new session before the actor has typed anything,
  and the transcript of the new session ends up as \<open>hi\<close>, \<open>ok\<close>.

  In \<open>LiveChatMode\<close> the script is the contact's line \<open>hi\<close>. After the exit the delivery timer
  is still pending; it fires at its time and starts a further timer.
\<close>

theorem timers_of_an_exited_session_fire:
  "map (\<lambda>t. (due t, callback t)) (pending (flowBrowser (FlowProp_run zero_draws
       [GoLive, FlowKeyDown ''o'', FlowKeyDown ''k'', FlowKeyDown ''Enter'', ExitLive]
       (FlowProp_open \<lparr>lp_messages = [\<lparr>pm_id = ''1'', pm_text = ''ok'', pm_isActor = True\<rparr>,
                                       \<lparr>pm_id = ''2'', pm_text = ''hi'', pm_isActor = False\<rparr>],
                        lp_mode = ''chat-only'', delayMode = ''custom'', customDelay = 2, lp_startDelay = 0\<rparr>))))
     = [(2000, NextMessageTimeout
                 \<lparr>lp_messages = [\<lparr>pm_id = ''1'', pm_text = ''ok'', pm_isActor = True\<rparr>,
                                 \<lparr>pm_id = ''2'', pm_text = ''hi'', pm_isActor = False\<rparr>],
                  lp_mode = ''chat-only'', delayMode = ''custom'', customDelay = 2, lp_startDelay = 0\<rparr>
                 \<lparr>pm_id = ''2'', pm_text = ''hi'', pm_isActor = False\<rparr> 1)]
   \<and> currentView (FlowProp_run zero_draws
       [GoLive, FlowKeyDown ''o'', FlowKeyDown ''k'', FlowKeyDown ''Enter'', ExitLive]
       (FlowProp_open \<lparr>lp_messages = [\<lparr>pm_id = ''1'', pm_text = ''ok'', pm_isActor = True\<rparr>,
                                       \<lparr>pm_id = ''2'', pm_text = ''hi'', pm_isActor = False\<rparr>],
                        lp_mode = ''chat-only'', delayMode = ''custom'', customDelay = 2, lp_startDelay = 0\<rparr>))
     = ''main''
   \<and> map pm_text (liveMessages (live (FlowProp_run zero_draws
       [GoLive, FlowKeyDown ''o'', FlowKeyDown ''k'', FlowKeyDown ''Enter'', ExitLive]
       (FlowProp_open \<lparr>lp_messages = [\<lparr>pm_id = ''1'', pm_text = ''ok'', pm_isActor = True\<rparr>,
                                       \<lparr>pm_id = ''2'', pm_text = ''hi'', pm_isActor = False\<rparr>],
                        lp_mode = ''chat-only'', delayMode = ''custom'', customDelay = 2, lp_startDelay = 0\<rparr>))))
     = [''ok'']
   \<and> map pm_text (liveMessages (live (FlowProp_run zero_draws
       [GoLive, FlowKeyDown ''o'', FlowKeyDown ''k'', FlowKeyDown ''Enter'', ExitLive, FlowTick]
       (FlowProp_open \<lparr>lp_messages = [\<lparr>pm_id = ''1'', pm_text = ''ok'', pm_isActor = True\<rparr>,
                                       \<lparr>pm_id = ''2'', pm_text = ''hi'', pm_isActor = False\<rparr>],
                        lp_mode = ''chat-only'', delayMode = ''custom'', customDelay = 2, lp_startDelay = 0\<rparr>))))
     = [''ok'', ''hi'']
   \<and> map pm_text (liveMessages (live (FlowProp_run zero_draws
       [GoLive, FlowKeyDown ''o'', FlowKeyDown ''k'', FlowKeyDown ''Enter'', ExitLive, GoLive]
       (FlowProp_open \<lparr>lp_messages = [\<lparr>pm_id = ''1'', pm_text = ''ok'', pm_isActor = True\<rparr>,
                                       \<lparr>pm_id = ''2'', pm_text = ''hi'', pm_isActor = False\<rparr>],
                        lp_mode = ''chat-only'', delayMode = ''custom'', customDelay = 2, lp_startDelay = 0\<rparr>))))
     = []
   \<and> map pm_text (liveMessages (live (FlowProp_run zero_draws
       [GoLive, FlowKeyDown ''o'', FlowKeyDown ''k'', FlowKeyDown ''Enter'', ExitLive, GoLive, FlowTick]
       (FlowProp_open \<lparr>lp_messages = [\<lparr>pm_id = ''1'', pm_text = ''ok'', pm_isActor = True\<rparr>,
                                       \<lparr>pm_id = ''2'', pm_text = ''hi'', pm_isActor = False\<rparr>],
                        lp_mode = ''chat-only'', delayMode = ''custom'', customDelay = 2, lp_startDelay = 0\<rparr>))))
     = [''hi'']
   \<and> map pm_text (liveMessages (live (FlowProp_run zero_draws
       [GoLive, FlowKeyDown ''o'', FlowKeyDown ''k'', FlowKeyDown ''Enter'', ExitLive, GoLive, FlowTick,
        FlowKeyDown ''o'', FlowKeyDown ''k'', FlowKeyDown ''Enter'']
       (FlowProp_open \<lparr>lp_messages = [\<lparr>pm_id = ''1'', pm_text = ''ok'', pm_isActor = True\<rparr>,
                                       \<lparr>pm_id = ''2'', pm_text = ''hi'', pm_isActor = False\<rparr>],
                        lp_mode = ''chat-only'', delayMode = ''custom'', customDelay = 2, lp_startDelay = 0\<rparr>))))
     = [''hi'', ''ok'']
   \<and> map (\<lambda>t. (due t, callback t)) (pending (modeBrowser (LiveChatMode_run [Exit]
        (LiveChatMode_mount \<lparr>participants = [''Me'', ''Bob''],
           project_messages = [\<lparr>msg_id = ''1'', sender = ''Bob'', msg_text = ''hi'', delay = 1\<rparr>]\<rparr>))))
     = [(1000, DeliverTimeout \<lparr>msg_id = ''1'', sender = ''Bob'', msg_text = ''hi'', delay = 1\<rparr>)]
   \<and> map (\<lambda>t. (due t, callback t)) (pending (modeBrowser (LiveChatMode_run [Exit, ModeTick]
        (LiveChatMode_mount \<lparr>participants = [''Me'', ''Bob''],
           project_messages = [\<lparr>msg_id = ''1'', sender = ''Bob'', msg_text = ''hi'', delay = 1\<rparr>]\<rparr>))))
     = [(1500, AdvanceTimeout)]
   \<and> clock (modeBrowser (LiveChatMode_run [Exit, ModeTick]
        (LiveChatMode_mount \<lparr>participants = [''Me'', ''Bob''],
           project_messages = [\<lparr>msg_id = ''1'', sender = ''Bob'', msg_text = ''hi'', delay = 1\<rparr>]\<rparr>)))
     = 1000"
  by (simp add: FlowProp_defs LiveChatMode_defs)







text \<open>
  C8. The claim fails in \<open>LiveChat\<close> when two actor lines follow each other: the
  \<open>ForcedTypingInput\<close> stays mounted from the first line to the second, and Enter does not
  reset the hook. After the actor has typed and sent the first line \<open>ab\<close>, the input for
  the second line \<open>cd\<close> starts with the display text \<open>ab\<close> and the index 2, it counts as
  complete, and a further Enter delivers the second line with the text \<open>ab\<close>.
\<close>

theorem consecutive_actor_lines_share_input_state:
  "map_option sm_text (activeMessage (LiveChat_run [ChatKeyDown ''a'', ChatKeyDown ''b'', ChatKeyDown ''Enter'']
      (LiveChat_mount
        [\<lparr>sm_id = ''1'', participantId = ''you'', sm_text = ''ab'', startDelay = Seconds 1, typingDelay = Natural\<rparr>,
         \<lparr>sm_id = ''2'', participantId = ''you'', sm_text = ''cd'', startDelay = Seconds 1, typingDelay = Natural\<rparr>])))
     = Some ''cd''
   \<and> forcedInput (LiveChat_run [ChatKeyDown ''a'', ChatKeyDown ''b'', ChatKeyDown ''Enter'']
      (LiveChat_mount
        [\<lparr>sm_id = ''1'', participantId = ''you'', sm_text = ''ab'', startDelay = Seconds 1, typingDelay = Natural\<rparr>,
         \<lparr>sm_id = ''2'', participantId = ''you'', sm_text = ''cd'', startDelay = Seconds 1, typingDelay = Natural\<rparr>]))
     = Some \<lparr>displayText = ''ab'', scriptIndex = 2\<rparr>
   \<and> map (\<lambda>e. (sm_id (fst e), sm_text (fst e)))
       (displayedMessages (LiveChat_run
          [ChatKeyDown ''a'', ChatKeyDown ''b'', ChatKeyDown ''Enter'', ChatKeyDown ''Enter'']
      (LiveChat_mount
        [\<lparr>sm_id = ''1'', participantId = ''you'', sm_text = ''ab'', startDelay = Seconds 1, typingDelay = Natural\<rparr>,
         \<lparr>sm_id = ''2'', participantId = ''you'', sm_text = ''cd'', startDelay = Seconds 1, typingDelay = Natural\<rparr>])))
     = [(''1'', ''ab''), (''2'', ''ab'')]"
  by (simp add: LiveChat_defs)

section \<open>The order of delivery in \<open>LiveChat\<close>\<close>

lemma isActorTurn_updates [simp]:
  "isActorTurn (s\<lparr>forcedInput := f\<rparr>) = isActorTurn s"
  "isActorTurn (s\<lparr>chatBrowser := b\<rparr>) = isActorTurn s"
  "isActorTurn (s\<lparr>chatTyping := y\<rparr>) = isActorTurn s"
  by (simp_all add: isActorTurn_def activeMessage_def)

lemma chat_advance_inv:
  assumes "pending (chatBrowser s) = []" "0 \<le> chatScriptIndex s"
    "chatScriptIndex s \<le> int (length (sceneMessages s))"
    "map (sm_id \<circ> fst) (displayedMessages s) = take (nat (chatScriptIndex s)) (map sm_id (sceneMessages s))"
  shows "chat_inv (processNextMessage (render_forced_input s))"
proof -
  let ?r = "render_forced_input s"
  have r: "chatScriptIndex ?r = chatScriptIndex s" "sceneMessages ?r = sceneMessages s"
    "displayedMessages ?r = displayedMessages s" "chatBrowser ?r = chatBrowser s"
    "isActorTurn ?r = isActorTurn s" "activeMessage ?r = activeMessage s"
    "forcedInput ?r \<noteq> None \<longrightarrow> isActorTurn s"
    by (auto simp: render_forced_input_def isActorTurn_def activeMessage_def split: option.splits)
  show ?thesis
  proof (cases "chatScriptIndex s \<ge> int (length (sceneMessages s)) \<or> isActorTurn s")
    case True
    then have "processNextMessage ?r = ?r" using r by (simp add: processNextMessage_def)
    then show ?thesis using assms r by (simp add: chat_inv_def)
  next
    case False
    then have a: "activeMessage s = Some (sceneMessages s ! nat (chatScriptIndex s))"
      using assms(2) by (simp add: activeMessage_def)
    let ?m = "sceneMessages s ! nat (chatScriptIndex s)"
    have p: "processNextMessage ?r =
       ?r\<lparr>chatBrowser := snd (setTimeout (ShowTyping ?m (typingSpeedMs ?m)) (startDelayMs ?m) (chatBrowser ?r))\<rparr>"
      using False r a by (simp add: processNextMessage_def)
    have ia: "isActorTurn (?r\<lparr>chatBrowser := snd (setTimeout (ShowTyping ?m (typingSpeedMs ?m)) (startDelayMs ?m) (chatBrowser ?r))\<rparr>)
        = isActorTurn s"
      using r by (simp add: isActorTurn_def activeMessage_def)
    show ?thesis unfolding p using assms r False ia
      by (simp add: chat_inv_def setTimeout_def)
  qed
qed

lemma chat_mount_inv: "chat_inv (LiveChat_mount msgs)"
  unfolding LiveChat_mount_def by (rule chat_advance_inv) (simp_all add: host_init_def)

lemma take_Suc_ids:
  assumes "0 \<le> i" "i < int (length ms)"
  shows "take (nat (i + 1)) (map sm_id ms) = take (nat i) (map sm_id ms) @ [sm_id (ms ! nat i)]"
proof -
  have "nat (i + 1) = Suc (nat i)" using assms by simp
  moreover have "nat i < length (map sm_id ms)" using assms by simp
  ultimately show ?thesis by (simp add: take_Suc_conv_app_nth)
qed

lemma chat_tick_inv:
  assumes "chat_inv s"
  shows "chat_inv (LiveChat_tick s)"
proof (cases "earliest (pending (chatBrowser s))")
  case None
  with assms show ?thesis by (simp add: LiveChat_tick_def)
next
  case (Some t)
  from assms have le: "length (pending (chatBrowser s)) \<le> 1" by (simp add: chat_inv_def)
  have ps: "pending (chatBrowser s) = [t]" by (rule earliest_single [OF le Some])
  let ?i = "chatScriptIndex s"
  let ?m = "sceneMessages s ! nat ?i"
  from assms ps have na: "\<not> isActorTurn s" and lt: "?i < int (length (sceneMessages s))"
    and i0: "0 \<le> ?i"
    and ids: "map (sm_id \<circ> fst) (displayedMessages s) = take (nat ?i) (map sm_id (sceneMessages s))"
    and cb: "case callback t of ShowTyping m sp \<Rightarrow> m = ?m | DeliverMessage m \<Rightarrow> m = ?m"
    and fi: "forcedInput s = None"
    by (auto simp: chat_inv_def)
  let ?s1 = "s\<lparr>chatBrowser := take_timer t (chatBrowser s)\<rparr>"
  have e1: "pending (chatBrowser ?s1) = []" using ps by (simp add: take_timer_def)
  show ?thesis
  proof (cases "callback t")
    case (ShowTyping m' sp)
    with cb have c: "callback t = ShowTyping ?m sp" by simp
    have "LiveChat_tick s =
       ?s1\<lparr>chatTyping := True,
           chatBrowser := snd (setTimeout (DeliverMessage ?m) (real (length (sm_text ?m)) * sp) (chatBrowser ?s1))\<rparr>"
      using Some c by (simp add: LiveChat_tick_def Let_def)
    moreover have "isActorTurn (?s1\<lparr>chatTyping := True,
           chatBrowser := snd (setTimeout (DeliverMessage ?m) (real (length (sm_text ?m)) * sp) (chatBrowser ?s1))\<rparr>)
        = isActorTurn s"
      by (simp add: isActorTurn_def activeMessage_def)
    ultimately show ?thesis using e1 na lt i0 ids fi
      by (simp add: chat_inv_def setTimeout_def)
  next
    case (DeliverMessage m')
    with cb have c: "callback t = DeliverMessage ?m" by simp
    let ?s2 = "?s1\<lparr>chatTyping := False,
                   displayedMessages := displayedMessages ?s1 @ [(?m, clock (chatBrowser ?s1))],
                   chatScriptIndex := chatScriptIndex ?s1 + 1\<rparr>"
    have "LiveChat_tick s = processNextMessage (render_forced_input ?s2)"
      using Some c by (simp add: LiveChat_tick_def Let_def)
    moreover have "chat_inv (processNextMessage (render_forced_input ?s2))"
      using e1 i0 lt ids by (intro chat_advance_inv) (simp_all add: take_Suc_ids)
    ultimately show ?thesis by simp
  qed
qed

lemma chat_send_inv:
  assumes "chat_inv s" "isActorTurn s"
  shows "chat_inv (LiveChat_send out s)"
proof (cases out)
  case None
  with assms show ?thesis by (simp add: LiveChat_send_def)
next
  case (Some tx)
  let ?i = "chatScriptIndex s"
  from assms have e: "pending (chatBrowser s) = []" by (auto simp: chat_inv_def)
  from assms(2) obtain m where am: "activeMessage s = Some m" by (auto simp: isActorTurn_def split: option.splits)
  then have i0: "0 \<le> ?i" and lt: "?i < int (length (sceneMessages s))" and m: "m = sceneMessages s ! nat ?i"
    by (auto simp: activeMessage_def split: if_splits)
  from assms have ids: "map (sm_id \<circ> fst) (displayedMessages s) = take (nat ?i) (map sm_id (sceneMessages s))"
    by (simp add: chat_inv_def)
  have h: "LiveChat_handleActorSend tx s =
      s\<lparr>displayedMessages := displayedMessages s @ [(m\<lparr>sm_text := tx\<rparr>, clock (chatBrowser s))],
        chatScriptIndex := ?i + 1\<rparr>"
    using am by (simp add: LiveChat_handleActorSend_def)
  have "chat_inv (processNextMessage (render_forced_input (LiveChat_handleActorSend tx s)))"
    unfolding h using e i0 lt ids m by (intro chat_advance_inv) (simp_all add: take_Suc_ids)
  with Some show ?thesis by (simp add: LiveChat_send_def)
qed

lemma chat_hook_update_inv:
  assumes "chat_inv s" "isActorTurn s"
  shows "chat_inv (s\<lparr>forcedInput := Some h\<rparr>) \<and> isActorTurn (s\<lparr>forcedInput := Some h\<rparr>)"
  using assms by (simp add: chat_inv_def cong: chat_cb.case_cong)

lemma chat_step_inv:
  assumes "chat_inv s"
  shows "chat_inv (LiveChat_step e s)"
proof (cases e)
  case ChatTick
  then show ?thesis using chat_tick_inv [OF assms] by (simp add: LiveChat_step_def)
next
  case (ChatIdle d)
  then show ?thesis using assms
    by (simp add: LiveChat_step_def chat_inv_def idle_def cong: chat_cb.case_cong)
next
  case (ChatKeyDown key)
  show ?thesis
  proof (cases "forcedInput s")
    case None
    with ChatKeyDown assms show ?thesis by (simp add: LiveChat_step_def)
  next
    case (Some h)
    with assms have a: "isActorTurn s" by (simp add: chat_inv_def)
    then obtain m where am: "activeMessage s = Some m" by (auto simp: isActorTurn_def split: option.splits)
    obtain h' out where hk: "handleKeyDown (sm_text m) key h = (h', out)"
      by (cases "handleKeyDown (sm_text m) key h")
    have "LiveChat_step e s = LiveChat_send out (s\<lparr>forcedInput := Some h'\<rparr>)"
      using ChatKeyDown Some am hk by (simp add: LiveChat_step_def)
    moreover have "chat_inv (LiveChat_send out (s\<lparr>forcedInput := Some h'\<rparr>))"
      using chat_hook_update_inv [OF assms a, of h'] by (intro chat_send_inv) simp_all
    ultimately show ?thesis by simp
  qed
next
  case ChatClickSend
  show ?thesis
  proof (cases "forcedInput s")
    case None
    with ChatClickSend assms show ?thesis by (simp add: LiveChat_step_def)
  next
    case (Some h)
    with assms have a: "isActorTurn s" by (simp add: chat_inv_def)
    then obtain m where am: "activeMessage s = Some m" by (auto simp: isActorTurn_def split: option.splits)
    have "LiveChat_step e s = LiveChat_send (if isComplete (sm_text m) h then Some (displayText h) else None) s"
      using ChatClickSend Some am by (simp add: LiveChat_step_def)
    moreover have "chat_inv (LiveChat_send (if isComplete (sm_text m) h then Some (displayText h) else None) s)"
      by (rule chat_send_inv [OF assms a])
    ultimately show ?thesis by simp
  qed
qed

lemma chat_run_inv: "chat_inv s \<Longrightarrow> chat_inv (LiveChat_run es s)"
  unfolding LiveChat_run_def by (induction es arbitrary: s) (auto intro: chat_step_inv)

lemma chat_step_scene [simp]: "sceneMessages (LiveChat_step e s) = sceneMessages s"
  by (cases e)
     (auto simp: LiveChat_step_def LiveChat_tick_def LiveChat_send_def LiveChat_handleActorSend_def
        processNextMessage_def render_forced_input_def Let_def
        split: option.splits chat_cb.splits prod.splits)

lemma chat_run_scene [simp]: "sceneMessages (LiveChat_run es s) = sceneMessages s"
  unfolding LiveChat_run_def by (induction es arbitrary: s) auto

lemma chat_mount_scene [simp]: "sceneMessages (LiveChat_mount msgs) = msgs"
  by (auto simp: LiveChat_mount_def processNextMessage_def render_forced_input_def split: option.splits)

text \<open>
  Whatever happens in a \<open>LiveChat\<close> session, the identifiers of the delivered lines are
  the first \<open>n\<close> identifiers of the script, in the script's order.
\<close>

lemma LiveChat_delivers_a_prefix_in_order:
  "\<exists>n \<le> length msgs.
     map (sm_id \<circ> fst) (displayedMessages (LiveChat_run es (LiveChat_mount msgs))) = take n (map sm_id msgs)"
proof -
  let ?s = "LiveChat_run es (LiveChat_mount msgs)"
  have "chat_inv ?s" by (intro chat_run_inv chat_mount_inv)
  then have "nat (chatScriptIndex ?s) \<le> length msgs
     \<and> map (sm_id \<circ> fst) (displayedMessages ?s) = take (nat (chatScriptIndex ?s)) (map sm_id msgs)"
    by (simp add: chat_inv_def nat_le_iff)
  then show ?thesis by blast
qed

section \<open>The times of delivery in \<open>LiveChat\<close>\<close>

lemma lastEntryTime_updates [simp]:
  "lastEntryTime (s\<lparr>forcedInput := f\<rparr>) = lastEntryTime s"
  "lastEntryTime (s\<lparr>chatBrowser := b\<rparr>) = lastEntryTime s"
  "lastEntryTime (s\<lparr>chatTyping := y\<rparr>) = lastEntryTime s"
  "lastEntryTime (s\<lparr>chatScriptIndex := i\<rparr>) = lastEntryTime s"
  "lastEntryTime (s\<lparr>displayedMessages := ds @ [(a, u)]\<rparr>) = u"
  by (simp_all add: lastEntryTime_def)












lemma advance_typing [simp]:
  "chatTyping (processNextMessage s) = chatTyping s"
  "chatTyping (render_forced_input s) = chatTyping s"
  by (simp_all add: processNextMessage_def render_forced_input_def split: option.splits)










end
